theory Spec2Isabelle
  imports Main "HOL-Library.Sublist"
begin

section \<open>Errors, log records and upstream data\<close>

text \<open>
  The Python exceptions the program meets. The first five are the classes named by the
  \<open>except\<close> clause of \<open>RedditClient.fetch_submission_tree\<close> (reddit.py, lines 101-107).
  \<open>BadRequest\<close>, \<open>InvalidToken\<close>, \<open>Forbidden\<close> and \<open>NotFound\<close> are the classes prawcore
  raises for the HTTP answers 400, 401, 403 and 404; in prawcore each of them is a
  subclass of \<open>ResponseException\<close> (as \<open>ServerError\<close> is). \<open>SystemExit\<close> carries its exit
  code (raised by \<open>sys.exit\<close>); \<open>OtherError\<close>, with the class name, is an exception that is
  an instance of none of the five classes.
\<close>

datatype exc =
    APIException
  | RedditAPIException
  | RequestException
  | ResponseException
  | ServerError
  | BadRequest
  | InvalidToken
  | Forbidden
  | NotFound
  | SystemExit int
  | OtherError string

text \<open>
  The exceptions the retry loop catches: the instances of the tuple of lines 101-107, which
  are the instances of the five classes and of their subclasses.
\<close>

fun transient :: "exc \<Rightarrow> bool" where
  "transient APIException = True"
| "transient RedditAPIException = True"
| "transient RequestException = True"
| "transient ResponseException = True"
| "transient ServerError = True"
| "transient BadRequest = True"
| "transient InvalidToken = True"
| "transient Forbidden = True"
| "transient NotFound = True"
| "transient (SystemExit _) = False"
| "transient (OtherError _) = False"

text \<open>The exit status of the interpreter when an exception reaches the top level.\<close>

fun exit_status :: "exc \<Rightarrow> int" where
  "exit_status (SystemExit code) = code"
| "exit_status _ = 1"

datatype level = DEBUG | INFO | WARNING | ERROR | CRITICAL

text \<open>
  A logger call: its level and its format string (the arguments are not kept; the dash and
  the ellipsis of the source's messages are written \<open>-\<close> and \<open>...\<close>).
\<close>

type_synonym log_record = "level \<times> string"

text \<open>
  A submission as the upstream listing hands it over (the attributes the discovery loops
  read). Reddit reports \<open>created_utc\<close> as a whole number of seconds, so \<open>int(sub.created_utc)\<close>
  is the number itself.
\<close>

record sub =
  sub_id :: string
  created_utc :: int
  score :: int
  link_flair_text :: "string option"

text \<open>The dictionary the discovery generators yield (reddit.py, lines 53-58 and 84-89).\<close>

record item =
  item_id :: string
  item_created_utc :: int
  item_score :: int
  item_link_flair_text :: "string option"

definition to_item :: "sub \<Rightarrow> item" where
  "to_item s =
     \<lparr>item_id = sub_id s, item_created_utc = created_utc s, item_score = score s,
      item_link_flair_text = link_flair_text s\<rparr>"

text \<open>
  A \<open>datetime\<close>: the reading of its own clock in whole seconds since 1970-01-01T00:00:00,
  and the UTC offset of that clock in seconds (\<open>None\<close> for a naive value).
\<close>

record datetime =
  wall_seconds :: int
  tzinfo :: "int option"

text \<open>A request sent to the platform by a discovery generator.\<close>

datatype request =
    ReqNew string
  | ReqSearch string string string string

text \<open>
  What lies outside the repository: the standard library's \<open>datetime.fromisoformat\<close> and
  \<open>str.lower\<close> (the case mapping of the interpreter's Unicode tables), and the platform
  behind PRAW. \<open>new_listing name\<close> is the feed
  \<open>reddit.subreddit(name).new(limit=None)\<close>; \<open>search_listing name query sort time_filter\<close>
  is \<open>reddit.subreddit(name).search(query, sort=sort, time_filter=time_filter)\<close>;
  \<open>submission_fetch n sid\<close> is the outcome of the \<open>n\<close>-th retrieval attempt made by the
  process when it asks for the thread \<open>sid\<close> (lines 95-100): an exception, or the
  extracted content of the thread.
\<close>

record 'p env =
  fromisoformat :: "string \<Rightarrow> exc + datetime"
  str_lower :: "string \<Rightarrow> string"
  new_listing :: "string \<Rightarrow> sub list"
  search_listing :: "string \<Rightarrow> string \<Rightarrow> string \<Rightarrow> string \<Rightarrow> sub list"
  submission_fetch :: "nat \<Rightarrow> string \<Rightarrow> exc + 'p"

section \<open>Strings\<close>

text \<open>\<open>sep.join(parts)\<close>.\<close>

fun join :: "string \<Rightarrow> string list \<Rightarrow> string" where
  "join sep [] = []"
| "join sep [x] = x"
| "join sep (x # y # ys) = x @ sep @ join sep (y # ys)"

text \<open>\<open>s.split(",")\<close>: the fields between the separators, at least one.\<close>

fun split_acc :: "char \<Rightarrow> string \<Rightarrow> string \<Rightarrow> string list" where
  "split_acc sep cur [] = [rev cur]"
| "split_acc sep cur (c # cs) =
     (if c = sep then rev cur # split_acc sep [] cs else split_acc sep (c # cur) cs)"

definition split :: "string \<Rightarrow> char \<Rightarrow> string list" where
  "split s sep = split_acc sep [] s"

text \<open>\<open>s.strip()\<close> on ASCII text: the whitespace of \<open>str.isspace\<close> below code 128.\<close>

definition isspace :: "char \<Rightarrow> bool" where
  "isspace c = (let n = (of_char c :: nat) in (9 \<le> n \<and> n \<le> 13) \<or> (28 \<le> n \<and> n \<le> 32))"

definition strip :: "string \<Rightarrow> string" where
  "strip s = rev (dropWhile isspace (rev (dropWhile isspace s)))"

section \<open>The remote client (infra/reddit.py)\<close>

text \<open>
  \<open>RedditClient._to_ts\<close> (lines 112-117): a naive value is read as UTC
  (\<open>dt.replace(tzinfo=timezone.utc)\<close>), an aware one keeps its offset; \<open>timestamp()\<close> of an
  aware value is its reading less its offset. A string \<open>fromisoformat\<close> rejects raises.
\<close>

definition to_ts :: "'p env \<Rightarrow> string \<Rightarrow> exc + int" where
  "to_ts env iso_str =
     (case fromisoformat env iso_str of
        Inl e \<Rightarrow> Inl e
      | Inr dt0 \<Rightarrow>
          (let dt = (if tzinfo dt0 = None then dt0\<lparr>tzinfo := Some 0\<rparr> else dt0) in
           case tzinfo dt of
             Some off \<Rightarrow> Inr (wall_seconds dt - off)
           | None \<Rightarrow> Inr (wall_seconds dt)))"

text \<open>
  A generator, run to its end: the items it yields in order, the exception that ends it (if
  one does), the requests it sent to the platform and the number of records it took from
  the platform's listing.
\<close>

record generator =
  yielded :: "item list"
  raised :: "exc option"
  requests :: "request list"
  pulled :: nat

text \<open>\<open>{f.lower() for f in flairs} if flairs else None\<close> (lines 37 and 76).\<close>

definition flair_set_of :: "'p env \<Rightarrow> string list option \<Rightarrow> string set option" where
  "flair_set_of env flairs =
     (case flairs of
        None \<Rightarrow> None
      | Some fs \<Rightarrow> if fs \<noteq> [] then Some (set (map (str_lower env) fs)) else None)"

text \<open>\<open>min_score and sub.score < min_score\<close> (lines 49 and 80): \<open>None\<close> and \<open>0\<close> are false.\<close>

definition below_min_score :: "int option \<Rightarrow> sub \<Rightarrow> bool" where
  "below_min_score min_score s =
     (case min_score of None \<Rightarrow> False | Some m \<Rightarrow> m \<noteq> 0 \<and> score s < m)"

text \<open>
  \<open>flair_set and (sub.link_flair_text or "").lower() not in flair_set\<close> (lines 51 and 82):
  \<open>None\<close> and the empty set are false.
\<close>

definition flair_rejected :: "'p env \<Rightarrow> string set option \<Rightarrow> sub \<Rightarrow> bool" where
  "flair_rejected env flair_set s =
     (case flair_set of
        None \<Rightarrow> False
      | Some fset \<Rightarrow>
          fset \<noteq> {} \<and>
          str_lower env (case link_flair_text s of None \<Rightarrow> [] | Some t \<Rightarrow> t) \<notin> fset)"

text \<open>
  The loop of \<open>list_submission_ids\<close> (lines 43-58) over the feed, newest first: the items
  it yields and the number of records it takes from the feed. \<open>break\<close> ends the loop at
  the record that is older than \<open>after\<close>; \<open>continue\<close> goes on with the next record.
\<close>

fun listing_loop ::
  "'p env \<Rightarrow> int \<Rightarrow> int \<Rightarrow> int option \<Rightarrow> string set option \<Rightarrow> sub list \<Rightarrow>
   item list \<times> nat"
where
  "listing_loop env after before min_score flair_set [] = ([], 0)"
| "listing_loop env after before min_score flair_set (s # rest) =
     (let ts = created_utc s in
      if ts < after then ([], 1)
      else
        (let (ys, n) = listing_loop env after before min_score flair_set rest in
         if ts > before then (ys, n + 1)
         else if below_min_score min_score s then (ys, n + 1)
         else if flair_rejected env flair_set s then (ys, n + 1)
         else (to_item s # ys, n + 1)))"

text \<open>
  \<open>RedditClient.list_submission_ids\<close> (lines 28-58). The body of a generator runs when
  the first item is asked for, so a date that does not parse ends the generator with the
  exception before any request is sent.
\<close>

definition list_submission_ids ::
  "'p env \<Rightarrow> string \<Rightarrow> string \<Rightarrow> string \<Rightarrow> int option \<Rightarrow> string list option \<Rightarrow> generator"
where
  "list_submission_ids env subreddit start_date end_date min_score flairs =
     (let flair_set = flair_set_of env flairs in
      case to_ts env start_date of
        Inl e \<Rightarrow> \<lparr>yielded = [], raised = Some e, requests = [], pulled = 0\<rparr>
      | Inr after \<Rightarrow>
          (case to_ts env end_date of
             Inl e \<Rightarrow> \<lparr>yielded = [], raised = Some e, requests = [], pulled = 0\<rparr>
           | Inr end_ts \<Rightarrow>
               (let before = end_ts + 86399;
                    (ys, n) = listing_loop env after before min_score flair_set
                                (new_listing env subreddit)
                in \<lparr>yielded = ys, raised = None, requests = [ReqNew subreddit],
                    pulled = n\<rparr>)))"

text \<open>The loop of \<open>search_submissions\<close> (lines 79-89).\<close>

fun search_loop ::
  "'p env \<Rightarrow> int option \<Rightarrow> string set option \<Rightarrow> sub list \<Rightarrow> item list \<times> nat"
where
  "search_loop env min_score flair_set [] = ([], 0)"
| "search_loop env min_score flair_set (s # rest) =
     (let (ys, n) = search_loop env min_score flair_set rest in
      if below_min_score min_score s then (ys, n + 1)
      else if flair_rejected env flair_set s then (ys, n + 1)
      else (to_item s # ys, n + 1))"

text \<open>\<open>" OR ".join(f'"{k}"' for k in keywords)\<close> (line 75).\<close>

definition or_query :: "string list \<Rightarrow> string" where
  "or_query keywords = join '' OR '' (map (\<lambda>k. [CHR 0x22] @ k @ [CHR 0x22]) keywords)"

text \<open>\<open>RedditClient.search_submissions\<close> (lines 61-89).\<close>

definition search_submissions ::
  "'p env \<Rightarrow> string \<Rightarrow> string list \<Rightarrow> string \<Rightarrow> int option \<Rightarrow> string list option \<Rightarrow> generator"
where
  "search_submissions env subreddit keywords time_filter min_score flairs =
     (let query = or_query keywords;
          flair_set = flair_set_of env flairs;
          (ys, n) = search_loop env min_score flair_set
                      (search_listing env subreddit query ''new'' time_filter)
      in \<lparr>yielded = ys, raised = None,
          requests = [ReqSearch subreddit query ''new'' time_filter], pulled = n\<rparr>)"

section \<open>The thread model and the checkpoint store\<close>

text \<open>
  The dictionary \<open>fetch_submission_tree\<close> returns (lines 97-100). The object made by
  \<open>reddit.submission(id=submission_id)\<close> carries the identifier it was asked for; the
  rest of the dictionary is the content the platform answered with.
\<close>

record 'p raw_tree =
  tree_id :: string
  tree_content :: 'p

text \<open>
  Modelled from the spec: \<open>core/models.py\<close> (\<open>Submission\<close>, \<open>export_ndjson\<close>) is not among
  the sources. Section 4.3: a Submission is converted into one self-contained record and
  appended to the output sink; append is the only write mode.
\<close>

record 'p submission =
  post_id :: string
  post_content :: 'p

definition from_pushshift_reddit :: "'p raw_tree \<Rightarrow> 'p submission" where
  "from_pushshift_reddit raw = \<lparr>post_id = tree_id raw, post_content = tree_content raw\<rparr>"

text \<open>
  Modelled from the spec: \<open>services/progress.py\<close> (\<open>ProgressTracker\<close>) is not among the
  sources. Section 4.2: \<open>is_done(id) -> bool\<close>, \<open>mark_done(id)\<close> (idempotent) and \<open>close()\<close>
  (safe to call more than once) over a durable set of identifiers; section 7: an I/O
  failure of the store is an error of the operation. \<open>io_error\<close> gives, for each operation,
  the exception the backing storage raises on it, if any.
\<close>

datatype db_op = IsDone string | MarkDone string

record ProgressTracker =
  done_ids :: "string set"
  is_closed :: bool
  io_error :: "db_op \<Rightarrow> exc option"

definition is_done :: "ProgressTracker \<Rightarrow> string \<Rightarrow> exc + bool" where
  "is_done p sid =
     (case io_error p (IsDone sid) of Some e \<Rightarrow> Inl e | None \<Rightarrow> Inr (sid \<in> done_ids p))"

definition mark_done :: "ProgressTracker \<Rightarrow> string \<Rightarrow> exc + ProgressTracker" where
  "mark_done p sid =
     (case io_error p (MarkDone sid) of
        Some e \<Rightarrow> Inl e
      | None \<Rightarrow> Inr (p\<lparr>done_ids := insert sid (done_ids p)\<rparr>))"

definition close :: "ProgressTracker \<Rightarrow> ProgressTracker" where
  "close p = p\<lparr>is_closed := True\<rparr>"

section \<open>The state of a run\<close>

text \<open>
  The effects of a run on its collaborators, in the order they happen: a retrieval attempt
  for a thread, a sleep of so many seconds, the append of a record to the output sink, a
  completed \<open>mark_done\<close>, a step of the progress bar, and the two calls of the \<open>finally\<close>
  block.
\<close>

datatype event =
    EvFetch string
  | EvSleep nat
  | EvAppend string
  | EvMarkDone string
  | EvBarUpdate
  | EvBarClose
  | EvProgressClose

text \<open>
  Everything a run changes: the number of retrieval attempts made so far (the index of the
  next answer of the platform), the effects so far, the logger calls, the output sink, the
  checkpoint store and the progress bar.
\<close>

record 'p world =
  attempts :: nat
  trace :: "event list"
  log_records :: "log_record list"
  sink :: "'p submission list"
  progress :: ProgressTracker
  bar_n :: nat
  bar_closed :: bool

definition logger :: "level \<Rightarrow> string \<Rightarrow> 'p world \<Rightarrow> 'p world" where
  "logger lvl msg w = w\<lparr>log_records := log_records w @ [(lvl, msg)]\<rparr>"

text \<open>\<open>export_ndjson([submission], self.output, append=True)\<close>.\<close>

definition export_ndjson :: "'p submission list \<Rightarrow> 'p world \<Rightarrow> 'p world" where
  "export_ndjson subs w =
     w\<lparr>sink := sink w @ subs, trace := trace w @ map (\<lambda>s. EvAppend (post_id s)) subs\<rparr>"

text \<open>\<open>bar.update()\<close> and \<open>bar.close()\<close> of tqdm.\<close>

definition bar_update :: "'p world \<Rightarrow> 'p world" where
  "bar_update w = w\<lparr>bar_n := bar_n w + 1, trace := trace w @ [EvBarUpdate]\<rparr>"

definition bar_close :: "'p world \<Rightarrow> 'p world" where
  "bar_close w = w\<lparr>bar_closed := True, trace := trace w @ [EvBarClose]\<rparr>"

definition progress_close :: "'p world \<Rightarrow> 'p world" where
  "progress_close w = w\<lparr>progress := close (progress w), trace := trace w @ [EvProgressClose]\<rparr>"

section \<open>Full-thread retrieval\<close>

text \<open>
  \<open>RedditClient.fetch_submission_tree\<close> (lines 92-109). \<open>while True\<close> has no bound, so the
  function is partial: \<open>None\<close> is a call that never returns. Each round is one attempt; an
  exception of the \<open>except\<close> tuple is followed by \<open>time.sleep(self.ratelimit_sleep)\<close> and
  the next round, any other exception leaves the function.
\<close>

partial_function (option) fetch_submission_tree ::
  "'p env \<Rightarrow> nat \<Rightarrow> string \<Rightarrow> 'p world \<Rightarrow> ((exc + 'p raw_tree) \<times> 'p world) option"
where
  "fetch_submission_tree env ratelimit_sleep submission_id w =
     (let w1 = w\<lparr>attempts := attempts w + 1, trace := trace w @ [EvFetch submission_id]\<rparr> in
      case submission_fetch env (attempts w) submission_id of
        Inr content \<Rightarrow> Some (Inr \<lparr>tree_id = submission_id, tree_content = content\<rparr>, w1)
      | Inl e \<Rightarrow>
          if transient e
          then fetch_submission_tree env ratelimit_sleep submission_id
                 (w1\<lparr>trace := trace w1 @ [EvSleep ratelimit_sleep]\<rparr>)
          else Some (Inl e, w1))"

declare fetch_submission_tree.simps [code]

section \<open>The coordinator (services/scraper.py)\<close>

type_synonym path = "string list"

text \<open>
  The fields of a \<open>Scraper\<close> that \<open>__init__\<close> sets from its arguments (lines 34-43);
  \<open>ratelimit_sleep\<close> is the one of its \<open>RedditClient\<close> (2 by default), \<open>progress_db\<close> the
  path its \<open>ProgressTracker\<close> was opened on.
\<close>

record scraper =
  subreddit :: string
  start_date :: string
  end_date :: string
  min_score :: "int option"
  flairs :: "string list option"
  search_keywords :: "string list option"
  output_path :: path
  progress_db :: path
  ratelimit_sleep :: nat

text \<open>\<open>if self.keywords\<close> (line 53): \<open>None\<close> and the empty list are false.\<close>

definition has_keywords :: "scraper \<Rightarrow> bool" where
  "has_keywords self = (case search_keywords self of None \<Rightarrow> False | Some ks \<Rightarrow> ks \<noteq> [])"

text \<open>The choice of the discovery generator (lines 53-71).\<close>

definition submission_iterator :: "'p env \<Rightarrow> scraper \<Rightarrow> generator" where
  "submission_iterator env self =
     (if has_keywords self
      then search_submissions env (subreddit self)
             (case search_keywords self of Some ks \<Rightarrow> ks | None \<Rightarrow> []) ''year''
             (min_score self) (flairs self)
      else list_submission_ids env (subreddit self) (start_date self) (end_date self)
             (min_score self) (flairs self))"

text \<open>
  The \<open>for\<close> loop of \<open>run\<close> (lines 75-88) over the items the generator yields. An
  exception of \<open>is_done\<close>, of the retrieval or of \<open>mark_done\<close> leaves the loop at once:
  nothing in the loop catches it.
\<close>

fun for_loop ::
  "'p env \<Rightarrow> scraper \<Rightarrow> item list \<Rightarrow> 'p world \<Rightarrow> ((exc + unit) \<times> 'p world) option"
where
  "for_loop env self [] w = Some (Inr (), w)"
| "for_loop env self (it # rest) w =
     (let sid = item_id it in
      case is_done (progress w) sid of
        Inl e \<Rightarrow> Some (Inl e, w)
      | Inr skip \<Rightarrow>
          if skip then for_loop env self rest (logger DEBUG ''Skip already-scraped id=%s'' w)
          else
            (case fetch_submission_tree env (ratelimit_sleep self) sid w of
               None \<Rightarrow> None
             | Some (Inl e, w1) \<Rightarrow> Some (Inl e, w1)
             | Some (Inr raw_tree, w1) \<Rightarrow>
                 (let submission = from_pushshift_reddit raw_tree;
                      w2 = export_ndjson [submission] w1
                  in case mark_done (progress w2) sid of
                       Inl e \<Rightarrow> Some (Inl e, w2)
                     | Inr p \<Rightarrow>
                         (let w3 = w2\<lparr>progress := p, trace := trace w2 @ [EvMarkDone sid]\<rparr>;
                              w4 = bar_update w3;
                              w5 = logger DEBUG ''Saved id=%s  (%d comments)'' w4
                          in for_loop env self rest w5))))"

text \<open>
  The \<open>try\<close> block (lines 75-91): the loop, then the exception that ended the generator
  (raised where the loop asks for the next item), or the return of \<open>bar.n\<close>.
\<close>

definition try_block ::
  "'p env \<Rightarrow> scraper \<Rightarrow> generator \<Rightarrow> 'p world \<Rightarrow> ((exc + nat) \<times> 'p world) option"
where
  "try_block env self gen w =
     (case for_loop env self (yielded gen) w of
        None \<Rightarrow> None
      | Some (Inl e, w1) \<Rightarrow> Some (Inl e, w1)
      | Some (Inr u, w1) \<Rightarrow>
          (case raised gen of
             Some e \<Rightarrow> Some (Inl e, w1)
           | None \<Rightarrow>
               Some (Inr (bar_n w1), logger INFO ''Scraping finished - %d new posts saved'' w1)))"

text \<open>The \<open>finally\<close> block (lines 92-94).\<close>

definition finally_block :: "'p world \<Rightarrow> 'p world" where
  "finally_block w = progress_close (bar_close w)"

text \<open>
  \<open>Scraper.run\<close> (lines 48-94): \<open>Inr n\<close> is the return of \<open>n\<close>, \<open>Inl e\<close> the exception \<open>e\<close>
  leaving \<open>run\<close>, \<open>None\<close> a run that never ends. \<open>tqdm(...)\<close> makes a bar that counts from 0.
\<close>

definition run :: "'p env \<Rightarrow> scraper \<Rightarrow> 'p world \<Rightarrow> ((exc + nat) \<times> 'p world) option" where
  "run env self w =
     (let w1 = logger INFO ''Starting scrape of r/%s from %s to %s'' w;
          w2 = (if has_keywords self
                then logger INFO ''Searching with keywords: %s'' w1
                else logger INFO ''Listing recent posts from /new'' w1);
          gen = submission_iterator env self;
          w3 = w2\<lparr>bar_n := 0, bar_closed := False\<rparr>
      in case try_block env self gen w3 of
           None \<Rightarrow> None
         | Some (r, w4) \<Rightarrow> Some (r, finally_block w4))"

subsection \<open>Signals\<close>

datatype signal = SIGHUP | SIGINT | SIGQUIT | SIGKILL | SIGUSR1 | SIGUSR2 | SIGTERM

text \<open>
  A Python signal handler that ends by raising: called with the signal in the state the
  interrupted program has reached, it leaves a state and an exception, raised at the
  instruction that was interrupted.
\<close>

type_synonym 'p signal_handler = "signal \<Rightarrow> 'p world \<Rightarrow> exc \<times> 'p world"

text \<open>
  \<open>_handler\<close> (lines 98-102): the warning, \<open>self.progress.close()\<close>, then \<open>sys.exit(0)\<close>,
  which raises \<open>SystemExit(0)\<close> in the interrupted program.
\<close>

definition handler :: "'p signal_handler" where
  "handler sig_num w =
     (let w1 = logger WARNING ''Received %s - shutting down gracefully...'' w;
          w2 = progress_close w1
      in (SystemExit 0, w2))"

text \<open>
  \<open>Scraper._setup_signals\<close> (lines 97-105) on the table of the handlers the process has
  installed (\<open>None\<close> is the default action of the signal).
\<close>

definition setup_signals ::
  "(signal \<Rightarrow> 'p signal_handler option) \<Rightarrow> (signal \<Rightarrow> 'p signal_handler option)"
where
  "setup_signals handlers = (handlers(SIGINT \<mapsto> handler))(SIGTERM \<mapsto> handler)"

text \<open>
  \<open>Scraper.__init__\<close> (lines 22-45): the fields set from the arguments, \<open>RedditClient()\<close>
  with its default \<open>ratelimit_sleep\<close> of 2, the \<open>ProgressTracker\<close> on \<open>progress_db\<close>, and
  \<open>self._setup_signals()\<close> (line 45) on the handler table of the process. The result is
  the object and the table the constructor leaves.
\<close>

definition scraper_init ::
  "string \<Rightarrow> string \<Rightarrow> string \<Rightarrow> path \<Rightarrow> int option \<Rightarrow> string list option \<Rightarrow>
   string list option \<Rightarrow> path \<Rightarrow> (signal \<Rightarrow> 'p signal_handler option) \<Rightarrow>
   scraper \<times> (signal \<Rightarrow> 'p signal_handler option)"
where
  "scraper_init name start end out score_floor flair_list keyword_list db handlers =
     (\<lparr>subreddit = name, start_date = start, end_date = end, min_score = score_floor,
       flairs = flair_list, search_keywords = keyword_list, output_path = out,
       progress_db = db, ratelimit_sleep = 2\<rparr>,
      setup_signals handlers)"

text \<open>
  Where the program is when a signal arrives: inside the \<open>try\<close> of
  \<open>fetch_submission_tree\<close> (reddit.py, lines 95-100, itself inside the \<open>try\<close> of \<open>run\<close>),
  elsewhere inside the \<open>try\<close> of \<open>run\<close> (scraper.py, lines 75-91, the \<open>time.sleep\<close> of the
  retry loop included), or outside that block (the constructor after line 45, lines 48-73
  of \<open>run\<close>, \<open>main\<close> after the run).
\<close>

datatype point = InRetrieval | InTry | OutsideTry

text \<open>
  What a signal does to the process: the default action of the platform when no handler is
  installed; the program going on, when the exception of the handler is caught; or the
  exception reaching the top level, in the state the unwinding leaves. The interpreter ends
  with \<open>exit_status\<close> of that exception.
\<close>

datatype 'p delivery =
    DefaultAction
  | Resumed "'p world"
  | Exited exc "'p world"

text \<open>
  The receipt of a signal while the process is in \<open>main\<close>. The handler runs in the state
  reached; its exception is raised at the interrupted instruction. Inside the \<open>try\<close> of
  \<open>fetch_submission_tree\<close> the \<open>except\<close> clause of lines 101-107 catches what it catches
  from the platform and the retry loop goes on; what it lets through, and an exception
  raised elsewhere in the \<open>try\<close> of \<open>run\<close>, meets no \<open>except\<close> clause (the loop of lines
  75-88 has none), runs the \<open>finally\<close> block of lines 92-94 and leaves \<open>run\<close>. \<open>main\<close>
  (cli.py, lines 66-132) has no \<open>try\<close>, so the exception reaches the top level.
\<close>

definition deliver ::
  "(signal \<Rightarrow> 'p signal_handler option) \<Rightarrow> signal \<Rightarrow> point \<Rightarrow> 'p world \<Rightarrow> 'p delivery"
where
  "deliver handlers sig_num pt w =
     (case handlers sig_num of
        None \<Rightarrow> DefaultAction
      | Some h \<Rightarrow>
          (let (e, w1) = h sig_num w in
           case pt of
             InRetrieval \<Rightarrow> if transient e then Resumed w1 else Exited e (finally_block w1)
           | InTry \<Rightarrow> Exited e (finally_block w1)
           | OutsideTry \<Rightarrow> Exited e w1))"

section \<open>The command line (cli.py)\<close>

text \<open>\<open>_slug\<close> (lines 26-27): \<open>date.replace("-", "_")\<close>.\<close>

definition slug :: "string \<Rightarrow> string" where
  "slug date = map (\<lambda>c. if c = CHR ''-'' then CHR ''_'' else c) date"

text \<open>
  \<open>build_paths\<close> (lines 30-41). A path is the list of its components; \<open>p / name\<close> adds the
  component \<open>name\<close> (one component when \<open>name\<close> has no separator in it). \<open>ROOT\<close> is the
  directory two levels above \<open>cli.py\<close>, known only where the program is installed.
\<close>

record paths =
  tag :: string
  ndjson :: path
  progress_path :: path
  csv_sub :: path
  csv_com :: path
  txt_dir :: path
  merged :: path

definition OUT_BASE :: "path \<Rightarrow> path" where
  "OUT_BASE ROOT = ROOT @ [''outputs'']"

definition build_paths :: "path \<Rightarrow> string \<Rightarrow> string \<Rightarrow> string \<Rightarrow> paths" where
  "build_paths ROOT sub start end =
     (let tag = sub @ ''_'' @ slug start @ ''__'' @ slug end;
          txt_root = OUT_BASE ROOT @ [''txt'']
      in \<lparr>tag = tag,
          ndjson = OUT_BASE ROOT @ [''data''] @ [''output_'' @ tag @ ''.ndjson''],
          progress_path = OUT_BASE ROOT @ [''progress''] @ [''progress_'' @ tag @ ''.sqlite''],
          csv_sub = OUT_BASE ROOT @ [''csv''] @ [''output_'' @ tag @ ''_submissions.csv''],
          csv_com = OUT_BASE ROOT @ [''csv''] @ [''output_'' @ tag @ ''_comments.csv''],
          txt_dir = txt_root @ [''conversations_'' @ tag],
          merged = txt_root @ [''all_conversations_'' @ tag @ ''.txt'']\<rparr>)"

text \<open>The namespace \<open>parse_args\<close> returns (lines 44-62), without the logging options.\<close>

record args =
  arg_subreddit :: string
  arg_start_date :: string
  arg_end_date :: string
  arg_min_score :: "int option"
  arg_flair :: "string option"
  arg_keywords :: "string option"
  arg_csv :: bool
  arg_txt :: bool
  arg_merged :: bool

text \<open>
  \<open>[f.strip() for f in value.split(",")] if value else None\<close> (lines 71-77): \<open>None\<close> and the
  empty string are false.
\<close>

definition comma_list :: "string option \<Rightarrow> string list option" where
  "comma_list v =
     (case v of
        None \<Rightarrow> None
      | Some s \<Rightarrow> if s \<noteq> [] then Some (map strip (split s (CHR '',''))) else None)"

text \<open>The \<open>Scraper\<close> that \<open>main\<close> builds (lines 71-94).\<close>

definition scraper_of_args :: "path \<Rightarrow> args \<Rightarrow> scraper" where
  "scraper_of_args ROOT a =
     (let flair_list = comma_list (arg_flair a);
          keyword_list = comma_list (arg_keywords a);
          ps = build_paths ROOT (arg_subreddit a) (arg_start_date a) (arg_end_date a)
      in \<lparr>subreddit = arg_subreddit a, start_date = arg_start_date a,
          end_date = arg_end_date a, min_score = arg_min_score a, flairs = flair_list,
          search_keywords = keyword_list, output_path = ndjson ps, progress_db = progress_path ps,
          ratelimit_sleep = 2\<rparr>)"

text \<open>
  The call \<open>Scraper(...)\<close> of \<open>main\<close> (lines 70-94) on the handler table of the process: the
  object of \<open>scraper_of_args\<close>, and the table with the handlers installed.
\<close>

definition construct ::
  "path \<Rightarrow> args \<Rightarrow> (signal \<Rightarrow> 'p signal_handler option) \<Rightarrow>
   scraper \<times> (signal \<Rightarrow> 'p signal_handler option)"
where
  "construct ROOT a handlers =
     (let flair_list = comma_list (arg_flair a);
          keyword_list = comma_list (arg_keywords a);
          ps = build_paths ROOT (arg_subreddit a) (arg_start_date a) (arg_end_date a)
      in scraper_init (arg_subreddit a) (arg_start_date a) (arg_end_date a) (ndjson ps)
           (arg_min_score a) flair_list keyword_list (progress_path ps) handlers)"

text \<open>The export steps that follow the run (lines 102-132).\<close>

datatype export_step = CsvExport | TxtExport | MergeTxt

definition export_steps :: "args \<Rightarrow> export_step list" where
  "export_steps a =
     (if arg_csv a then [CsvExport] else []) @
     (if arg_txt a \<or> arg_merged a then [TxtExport] else []) @
     (if arg_merged a then [MergeTxt] else [])"

text \<open>
  \<open>main\<close> (lines 66-132): the run, then the export steps it goes on to, none when the run
  saved nothing (lines 98-100). An exception of the run leaves \<open>main\<close>.
\<close>

definition main ::
  "'p env \<Rightarrow> path \<Rightarrow> args \<Rightarrow> 'p world \<Rightarrow> ((exc + export_step list) \<times> 'p world) option"
where
  "main env ROOT a w =
     (case run env (scraper_of_args ROOT a) w of
        None \<Rightarrow> None
      | Some (Inl e, w1) \<Rightarrow> Some (Inl e, w1)
      | Some (Inr posts_saved_count, w1) \<Rightarrow>
          if posts_saved_count = 0
          then Some (Inr [], logger INFO ''No new posts were saved, skipping export steps.'' w1)
          else Some (Inr (export_steps a), w1))"

section \<open>Vocabulary of the statements and example inputs\<close>

text \<open>
  The effects of a retrieval that fails \<open>k\<close> times, sleeping after each failure, and is then
  answered: \<open>k\<close> attempts each followed by a sleep of \<open>rs\<close> seconds, and one more attempt.
\<close>

definition retry_events :: "nat \<Rightarrow> string \<Rightarrow> nat \<Rightarrow> event list" where
  "retry_events rs sid k = concat (replicate k [EvFetch sid, EvSleep rs]) @ [EvFetch sid]"

text \<open>
  The \<open>k\<close> attempts from attempt number \<open>n\<close> on, asked for the thread \<open>sid\<close>, all fail with an
  exception of the \<open>except\<close> clause.
\<close>

definition fails_then :: "'p env \<Rightarrow> string \<Rightarrow> nat \<Rightarrow> nat \<Rightarrow> bool" where
  "fails_then env sid n k =
     (\<forall>i<k. \<exists>e. submission_fetch env (n + i) sid = Inl e \<and> transient e)"

text \<open>
  The call on \<open>w\<close> returned \<open>y\<close> at its attempt number \<open>k\<close> (counting from 0): the attempts before
  it failed with exceptions of the \<open>except\<close> clause, that one did not, and \<open>y\<close> is its outcome
  with the state after \<open>k\<close> sleeps and \<open>k + 1\<close> attempts.
\<close>

definition returned_after :: "'p env \<Rightarrow> nat \<Rightarrow> string \<Rightarrow> 'p world \<Rightarrow> ((exc + 'p raw_tree) \<times> 'p world) \<Rightarrow> nat \<Rightarrow> bool" where
  "returned_after env rs sid w y k \<longleftrightarrow>
     fails_then env sid (attempts w) k \<and>
     (\<forall>e. submission_fetch env (attempts w + k) sid = Inl e \<longrightarrow> \<not> transient e) \<and>
     y = (case submission_fetch env (attempts w + k) sid of Inl e \<Rightarrow> Inl e
                 | Inr c \<Rightarrow> Inr \<lparr>tree_id = sid, tree_content = c\<rparr>,
                 w\<lparr>attempts := attempts w + k + 1,
                   trace := trace w @ retry_events rs sid k\<rparr>)"

text \<open>
  The identifiers of \<open>ids\<close> that are not in \<open>D\<close>, each once, in the order of their first
  occurrence.
\<close>

definition unsaved :: "string set \<Rightarrow> string list \<Rightarrow> string list" where
  "unsaved D ids = rev (remdups (rev (filter (\<lambda>s. s \<notin> D) ids)))"

text \<open>
  The effects that persist a thread: the append, the \<open>mark_done\<close> and the step of the counter.
\<close>

fun is_persist :: "event \<Rightarrow> bool" where
  "is_persist (EvAppend _) = True"
| "is_persist (EvMarkDone _) = True"
| "is_persist EvBarUpdate = True"
| "is_persist _ = False"

text \<open>
  For each identifier in turn: its append, then its \<open>mark_done\<close>, then the step of the counter.
\<close>

definition persist_trace :: "string list \<Rightarrow> event list" where
  "persist_trace ids = concat (map (\<lambda>s. [EvAppend s, EvMarkDone s, EvBarUpdate]) ids)"

text \<open>
  The state after a round of the loop that saved the thread \<open>sid\<close> with content \<open>c\<close>, retrieved
  at the attempt after \<open>k\<close> failed ones.
\<close>

definition saved_world :: "nat \<Rightarrow> string \<Rightarrow> nat \<Rightarrow> 'p \<Rightarrow> 'p world \<Rightarrow> 'p world" where
  "saved_world rs sid k c w =
     w\<lparr>attempts := attempts w + k + 1,
       trace := trace w @ retry_events rs sid k @ [EvAppend sid, EvMarkDone sid, EvBarUpdate],
       log_records := log_records w @ [(DEBUG, ''Saved id=%s  (%d comments)'')],
       sink := sink w @ [\<lparr>post_id = sid, post_content = c\<rparr>],
       progress := (progress w)\<lparr>done_ids := insert sid (done_ids (progress w))\<rparr>,
       bar_n := bar_n w + 1\<rparr>"

text \<open>
  The state in which \<open>run\<close> enters its \<open>try\<close> block (lines 49-73): the two logger calls and the
  new progress bar.
\<close>

definition run_start :: "scraper \<Rightarrow> 'p world \<Rightarrow> 'p world" where
  "run_start self w =
     (let w1 = logger INFO ''Starting scrape of r/%s from %s to %s'' w;
          w2 = (if has_keywords self
                then logger INFO ''Searching with keywords: %s'' w1
                else logger INFO ''Listing recent posts from /new'' w1)
      in w2\<lparr>bar_n := 0, bar_closed := False\<rparr>)"

text \<open>
  Example inputs. \<open>fromisoformat\<close> on the two dates of the examples: midnight of 2024-01-01 and of
  2024-01-31 as naive values; any other string is rejected.
\<close>

definition fixture_dates :: "string \<Rightarrow> exc + datetime" where
  "fixture_dates s =
     (if s = ''2024-01-01'' then Inr \<lparr>wall_seconds = 1704067200, tzinfo = None\<rparr>
      else if s = ''2024-01-31'' then Inr \<lparr>wall_seconds = 1706659200, tzinfo = None\<rparr>
      else Inl (OtherError ''ValueError''))"

definition fixture_sub :: "string \<Rightarrow> int \<Rightarrow> sub" where
  "fixture_sub sid ts = \<lparr>sub_id = sid, created_utc = ts, score = 10, link_flair_text = None\<rparr>"

definition fixture_feed :: "sub list" where
  "fixture_feed =
     [fixture_sub ''a'' 1706000400, fixture_sub ''b'' 1706000300,
      fixture_sub ''c'' 1706000200, fixture_sub ''d'' 1706000100]"

text \<open>
  \<open>str.lower\<close> on the strings of the examples, which are ASCII: on such a string it maps the
  letters \<open>A\<close> to \<open>Z\<close> to \<open>a\<close> to \<open>z\<close> and leaves every other character.
\<close>

definition ascii_lower_char :: "char \<Rightarrow> char" where
  "ascii_lower_char c =
     (let n = (of_char c :: nat) in if 65 \<le> n \<and> n \<le> 90 then char_of (n + 32) else c)"

definition ascii_lower :: "string \<Rightarrow> string" where
  "ascii_lower s = map ascii_lower_char s"

definition fixture_env :: "sub list \<Rightarrow> (nat \<Rightarrow> string \<Rightarrow> exc + string) \<Rightarrow> string env" where
  "fixture_env feed fetch =
     \<lparr>fromisoformat = fixture_dates, str_lower = ascii_lower, new_listing = (\<lambda>_. feed),
      search_listing = (\<lambda>_ _ _ _. feed), submission_fetch = fetch\<rparr>"

definition fixture_args :: args where
  "fixture_args =
     \<lparr>arg_subreddit = ''python'', arg_start_date = ''2024-01-01'',
      arg_end_date = ''2024-01-31'', arg_min_score = None, arg_flair = None,
      arg_keywords = None, arg_csv = True, arg_txt = True, arg_merged = False\<rparr>"

definition fixture_scraper :: scraper where
  "fixture_scraper = scraper_of_args [''srv'', ''app''] fixture_args"

definition fixture_world :: "string set \<Rightarrow> (db_op \<Rightarrow> exc option) \<Rightarrow> string world" where
  "fixture_world D faults =
     \<lparr>attempts = 0, trace = [], log_records = [], sink = [],
      progress = \<lparr>done_ids = D, is_closed = False, io_error = faults\<rparr>,
      bar_n = 0, bar_closed = False\<rparr>"

text \<open>
  The run that a signal interrupts when the loop has completed the rounds of its first \<open>j\<close>
  candidates: the loop over those candidates leaves the state the loop over all of them
  has reached by then; the signal is received there, inside the \<open>try\<close> block. \<open>None\<close> is a
  run that does not come that far.
\<close>

definition interrupted_run ::
  "'p env \<Rightarrow> scraper \<Rightarrow> (signal \<Rightarrow> 'p signal_handler option) \<Rightarrow> signal \<Rightarrow> nat \<Rightarrow>
   'p world \<Rightarrow> 'p delivery option"
where
  "interrupted_run env self handlers sig_num j w =
     (case for_loop env self (take j (yielded (submission_iterator env self)))
             (run_start self w) of
        None \<Rightarrow> None
      | Some (Inl e, w1) \<Rightarrow> None
      | Some (Inr u, w1) \<Rightarrow> Some (deliver handlers sig_num InTry w1))"


section \<open>Properties\<close>

lemma retry_events_Suc:
  "retry_events rs sid (Suc k) = EvFetch sid # EvSleep rs # retry_events rs sid k"
  by (simp add: retry_events_def)

lemma fails_then_Suc:
  "fails_then env sid n (Suc k) \<longleftrightarrow>
     (\<exists>e. submission_fetch env n sid = Inl e \<and> transient e) \<and> fails_then env sid (Suc n) k"
  unfolding fails_then_def
proof
  assume h: "\<forall>i<Suc k. \<exists>e. submission_fetch env (n + i) sid = Inl e \<and> transient e"
  from h have "\<exists>e. submission_fetch env (n + 0) sid = Inl e \<and> transient e" by blast
  moreover have "\<forall>i<k. \<exists>e. submission_fetch env (Suc n + i) sid = Inl e \<and> transient e"
  proof (intro allI impI)
    fix i assume "i < k"
    then have "Suc i < Suc k" by simp
    with h have "\<exists>e. submission_fetch env (n + Suc i) sid = Inl e \<and> transient e" by blast
    then show "\<exists>e. submission_fetch env (Suc n + i) sid = Inl e \<and> transient e" by simp
  qed
  ultimately show "(\<exists>e. submission_fetch env n sid = Inl e \<and> transient e) \<and>
    (\<forall>i<k. \<exists>e. submission_fetch env (Suc n + i) sid = Inl e \<and> transient e)" by simp
next
  assume h: "(\<exists>e. submission_fetch env n sid = Inl e \<and> transient e) \<and>
    (\<forall>i<k. \<exists>e. submission_fetch env (Suc n + i) sid = Inl e \<and> transient e)"
  show "\<forall>i<Suc k. \<exists>e. submission_fetch env (n + i) sid = Inl e \<and> transient e"
  proof (intro allI impI)
    fix i assume "i < Suc k"
    show "\<exists>e. submission_fetch env (n + i) sid = Inl e \<and> transient e"
    proof (cases i)
      case 0 with h show ?thesis by simp
    next
      case (Suc j)
      with \<open>i < Suc k\<close> have "j < k" by simp
      with h have "\<exists>e. submission_fetch env (Suc n + j) sid = Inl e \<and> transient e" by blast
      with Suc show ?thesis by simp
    qed
  qed
qed

text \<open>k transient failures, then an answer that is not one: the call returns it.\<close>

lemma fetch_after_failures:
  assumes "fails_then env sid (attempts w) k"
      and "submission_fetch env (attempts w + k) sid = r"
      and "\<forall>e. r = Inl e \<longrightarrow> \<not> transient e"
  shows "fetch_submission_tree env rs sid w =
           Some (case r of Inl e \<Rightarrow> Inl e
                 | Inr c \<Rightarrow> Inr \<lparr>tree_id = sid, tree_content = c\<rparr>,
                 w\<lparr>attempts := attempts w + k + 1,
                   trace := trace w @ retry_events rs sid k\<rparr>)"
  using assms
proof (induction k arbitrary: w)
  case 0
  then show ?case
    by (subst fetch_submission_tree.simps)
       (auto simp: retry_events_def Let_def split: sum.splits)
next
  case (Suc k)
  from Suc.prems(1) obtain e where e: "submission_fetch env (attempts w) sid = Inl e" "transient e"
    and rest: "fails_then env sid (Suc (attempts w)) k"
    by (auto simp: fails_then_Suc)
  let ?w = "w\<lparr>attempts := attempts w + 1, trace := trace w @ [EvFetch sid, EvSleep rs]\<rparr>"
  have "fetch_submission_tree env rs sid w = fetch_submission_tree env rs sid ?w"
    using e by (subst fetch_submission_tree.simps) (simp add: Let_def)
  also have "\<dots> = Some (case r of Inl e \<Rightarrow> Inl e
                 | Inr c \<Rightarrow> Inr \<lparr>tree_id = sid, tree_content = c\<rparr>,
                 ?w\<lparr>attempts := attempts ?w + k + 1,
                   trace := trace ?w @ retry_events rs sid k\<rparr>)"
    using rest Suc.prems(2,3) by (intro Suc.IH) simp_all
  finally show ?case by (simp add: retry_events_Suc)
qed

lemma returned_after_step:
  assumes IH: "\<And>env rs sid w y. f env rs sid w = Some y \<Longrightarrow> \<exists>k. returned_after env rs sid w y k"
      and eq: "(let w1 = w\<lparr>attempts := attempts w + 1, trace := trace w @ [EvFetch sid]\<rparr> in
      case submission_fetch env (attempts w) sid of
        Inr content \<Rightarrow> Some (Inr \<lparr>tree_id = sid, tree_content = content\<rparr>, w1)
      | Inl e \<Rightarrow>
          if transient e
          then f env rs sid (w1\<lparr>trace := trace w1 @ [EvSleep rs]\<rparr>)
          else Some (Inl e, w1)) = Some y"
  shows "\<exists>k. returned_after env rs sid w y k"
proof (cases "submission_fetch env (attempts w) sid")
  case (Inr c)
  with eq have "y = (Inr \<lparr>tree_id = sid, tree_content = c\<rparr>,
      w\<lparr>attempts := attempts w + 1, trace := trace w @ [EvFetch sid]\<rparr>)"
    by (simp add: Let_def)
  with Inr have "returned_after env rs sid w y 0"
    by (simp add: returned_after_def fails_then_def retry_events_def)
  then show ?thesis ..
next
  case (Inl e)
  show ?thesis
  proof (cases "transient e")
    case False
    with Inl eq have "y = (Inl e,
        w\<lparr>attempts := attempts w + 1, trace := trace w @ [EvFetch sid]\<rparr>)"
      by (simp add: Let_def)
    with Inl False have "returned_after env rs sid w y 0"
      by (simp add: returned_after_def fails_then_def retry_events_def)
    then show ?thesis ..
  next
    case True
    let ?w = "w\<lparr>attempts := attempts w + 1, trace := trace w @ [EvFetch sid, EvSleep rs]\<rparr>"
    from Inl True eq have "f env rs sid ?w = Some y" by (simp add: Let_def)
    from IH[OF this] obtain k where k: "returned_after env rs sid ?w y k" ..
    have "returned_after env rs sid w y (Suc k)"
      using k Inl True
      by (simp add: returned_after_def fails_then_Suc retry_events_Suc)
    then show ?thesis ..
  qed
qed

text \<open>Conversely, a call that returns has made finitely many failed attempts first.\<close>

lemma fetch_returns:
  assumes "fetch_submission_tree env rs sid w = Some y"
  shows "\<exists>k. returned_after env rs sid w y k"
  by (rule fetch_submission_tree.raw_induct
        [where P = "\<lambda>env rs sid w y. \<exists>k. returned_after env rs sid w y k", OF _ assms])
     (rule returned_after_step)

lemma fetch_never_returns:
  assumes "\<forall>i. \<exists>e. submission_fetch env (attempts w + i) sid = Inl e \<and> transient e"
  shows "fetch_submission_tree env rs sid w = None"
proof (rule ccontr)
  assume "fetch_submission_tree env rs sid w \<noteq> None"
  then obtain y where "fetch_submission_tree env rs sid w = Some y" by auto
  from fetch_returns[OF this] obtain k where
    "\<forall>e. submission_fetch env (attempts w + k) sid = Inl e \<longrightarrow> \<not> transient e"
    unfolding returned_after_def by blast
  with assms show False by blast
qed

lemma unsaved_Nil [simp]: "unsaved D [] = []"
  by (simp add: unsaved_def)

lemma unsaved_Cons_done: "x \<in> D \<Longrightarrow> unsaved D (x # xs) = unsaved D xs"
  by (simp add: unsaved_def)

lemma remdups_snoc:
  "remdups (ys @ [x]) = remdups (filter (\<lambda>s. s \<noteq> x) ys) @ [x]"
  by (induction ys) auto

lemma unsaved_Cons_new:
  assumes "x \<notin> D"
  shows "unsaved D (x # xs) = x # unsaved (insert x D) xs"
proof -
  have "remdups (rev (filter (\<lambda>s. s \<notin> D) xs) @ [x]) =
          remdups (filter (\<lambda>s. s \<noteq> x) (rev (filter (\<lambda>s. s \<notin> D) xs))) @ [x]"
    by (rule remdups_snoc)
  moreover have "filter (\<lambda>s. s \<noteq> x) (rev (filter (\<lambda>s. s \<notin> D) xs)) =
          rev (filter (\<lambda>s. s \<notin> insert x D) xs)"
    by (simp add: rev_filter [symmetric] conj_commute)
  ultimately show ?thesis using assms by (simp add: unsaved_def)
qed

lemma unsaved_distinct: "distinct (unsaved D ids)"
  by (simp add: unsaved_def)

lemma unsaved_set: "set (unsaved D ids) = set ids - D"
  by (auto simp: unsaved_def)

lemma unsaved_of_distinct: "distinct ids \<Longrightarrow> unsaved D ids = filter (\<lambda>s. s \<notin> D) ids"
  by (simp add: unsaved_def distinct_remdups_id)

lemma persist_retry [simp]: "filter is_persist (retry_events rs sid k) = []"
  by (induction k) (simp_all add: retry_events_def)

lemma fetch_in_retry: "EvFetch s \<in> set (retry_events rs sid k) \<longleftrightarrow> s = sid"
  by (induction k) (auto simp: retry_events_def)

lemma persist_trace_Nil [simp]: "persist_trace [] = []"
  by (simp add: persist_trace_def)

lemma persist_trace_Cons:
  "persist_trace (s # ids) = EvAppend s # EvMarkDone s # EvBarUpdate # persist_trace ids"
  by (simp add: persist_trace_def)

text \<open>One round of the loop on a new identifier whose retrieval succeeds.\<close>

lemma for_loop_saved:
  assumes "item_id it \<notin> done_ids (progress w)"
      and "io_error (progress w) (IsDone (item_id it)) = None"
      and "io_error (progress w) (MarkDone (item_id it)) = None"
      and "fails_then env (item_id it) (attempts w) k"
      and "submission_fetch env (attempts w + k) (item_id it) = Inr c"
  shows "for_loop env self (it # rest) w =
           for_loop env self rest (saved_world (ratelimit_sleep self) (item_id it) k c w)"
proof -
  have f: "fetch_submission_tree env (ratelimit_sleep self) (item_id it) w =
      Some (Inr \<lparr>tree_id = item_id it, tree_content = c\<rparr>,
            w\<lparr>attempts := attempts w + k + 1,
              trace := trace w @ retry_events (ratelimit_sleep self) (item_id it) k\<rparr>)"
    using fetch_after_failures[OF assms(4) assms(5)] by simp
  have "for_loop env self (it # rest) w =
      for_loop env self rest
        (logger DEBUG ''Saved id=%s  (%d comments)''
          (bar_update
            ((export_ndjson [\<lparr>post_id = item_id it, post_content = c\<rparr>]
                (w\<lparr>attempts := attempts w + k + 1,
                   trace := trace w @ retry_events (ratelimit_sleep self) (item_id it) k\<rparr>))
             \<lparr>progress := (progress w)\<lparr>done_ids := insert (item_id it) (done_ids (progress w))\<rparr>,
               trace := trace w @ retry_events (ratelimit_sleep self) (item_id it) k @
                        [EvAppend (item_id it), EvMarkDone (item_id it)]\<rparr>)))"
    using assms(1-3)
    by (simp add: f is_done_def mark_done_def export_ndjson_def from_pushshift_reddit_def
        Let_def)
  also have "logger DEBUG ''Saved id=%s  (%d comments)''
          (bar_update
            ((export_ndjson [\<lparr>post_id = item_id it, post_content = c\<rparr>]
                (w\<lparr>attempts := attempts w + k + 1,
                   trace := trace w @ retry_events (ratelimit_sleep self) (item_id it) k\<rparr>))
             \<lparr>progress := (progress w)\<lparr>done_ids := insert (item_id it) (done_ids (progress w))\<rparr>,
               trace := trace w @ retry_events (ratelimit_sleep self) (item_id it) k @
                        [EvAppend (item_id it), EvMarkDone (item_id it)]\<rparr>))
      = saved_world (ratelimit_sleep self) (item_id it) k c w"
    by (rule world.equality)
       (simp_all add: export_ndjson_def bar_update_def logger_def saved_world_def)
  finally show ?thesis .
qed

lemma for_loop_skip:
  assumes "item_id it \<in> done_ids (progress w)"
      and "io_error (progress w) (IsDone (item_id it)) = None"
  shows "for_loop env self (it # rest) w =
           for_loop env self rest (logger DEBUG ''Skip already-scraped id=%s'' w)"
  using assms by (simp add: is_done_def Let_def)

lemma is_done_Inr: "is_done p sid = Inr b \<Longrightarrow> io_error p (IsDone sid) = None \<and> b = (sid \<in> done_ids p)"
  by (auto simp: is_done_def split: option.splits)

lemma for_loop_Cons_cases:
  assumes run: "for_loop env self (it # rest) w = Some (r, w')"
  obtains
    (is_done_error) e where "r = Inl e" "w' = w"
  | (skip) "item_id it \<in> done_ids (progress w)"
      "for_loop env self rest (logger DEBUG ''Skip already-scraped id=%s'' w) = Some (r, w')"
  | (fetch_error) k e where "item_id it \<notin> done_ids (progress w)" "r = Inl e"
      "w' = w\<lparr>attempts := attempts w + k + 1,
              trace := trace w @ retry_events (ratelimit_sleep self) (item_id it) k\<rparr>"
  | (mark_error) k c e where "item_id it \<notin> done_ids (progress w)" "r = Inl e"
      "w' = export_ndjson [\<lparr>post_id = item_id it, post_content = c\<rparr>]
              (w\<lparr>attempts := attempts w + k + 1,
                 trace := trace w @ retry_events (ratelimit_sleep self) (item_id it) k\<rparr>)"
  | (saved) k c where "item_id it \<notin> done_ids (progress w)"
      "for_loop env self rest (saved_world (ratelimit_sleep self) (item_id it) k c w) = Some (r, w')"
proof -
  let ?sid = "item_id it"
  let ?rs = "ratelimit_sleep self"
  show thesis
  proof (cases "is_done (progress w) ?sid")
    case (Inl e)
    with run have "r = Inl e" "w' = w" by (simp_all add: Let_def)
    then show thesis by (rule is_done_error)
  next
    case (Inr b)
    note isd = is_done_Inr[OF Inr]
    show thesis
    proof (cases b)
      case True
      with isd have "?sid \<in> done_ids (progress w)" by simp
      moreover from run Inr True
      have "for_loop env self rest (logger DEBUG ''Skip already-scraped id=%s'' w) = Some (r, w')"
        by (simp add: Let_def)
      ultimately show thesis by (rule skip)
    next
      case False
      with isd have nd: "?sid \<notin> done_ids (progress w)" by simp
      from run Inr False obtain y where y: "fetch_submission_tree env ?rs ?sid w = Some y"
        by (auto simp: Let_def split: option.splits)
      from fetch_returns[OF y] obtain k where k: "returned_after env ?rs ?sid w y k" ..
      let ?w1 = "w\<lparr>attempts := attempts w + k + 1, trace := trace w @ retry_events ?rs ?sid k\<rparr>"
      show thesis
      proof (cases "submission_fetch env (attempts w + k) ?sid")
        case (Inl e)
        with k have "y = (Inl e, ?w1)" by (simp add: returned_after_def)
        with run Inr False y have "r = Inl e" "w' = ?w1" by (simp_all add: Let_def)
        with nd show thesis by (rule fetch_error)
      next
        case fetched: (Inr c)
        with k have yv: "y = (Inr \<lparr>tree_id = ?sid, tree_content = c\<rparr>, ?w1)"
          by (simp add: returned_after_def)
        from k have ft: "fails_then env ?sid (attempts w) k" by (simp add: returned_after_def)
        show thesis
        proof (cases "io_error (progress w) (MarkDone ?sid)")
          case (Some e)
          with run Inr False y yv
          have "r = Inl e"
            "w' = export_ndjson [\<lparr>post_id = ?sid, post_content = c\<rparr>] ?w1"
            by (simp_all add: Let_def mark_done_def export_ndjson_def from_pushshift_reddit_def)
          with nd show thesis by (rule mark_error)
        next
          case None
          from for_loop_saved[OF nd _ None ft fetched] isd
          have "for_loop env self (it # rest) w =
                  for_loop env self rest (saved_world ?rs ?sid k c w)" by simp
          with run have "for_loop env self rest (saved_world ?rs ?sid k c w) = Some (r, w')"
            by simp
          with nd show thesis by (rule saved)
        qed
      qed
    qed
  qed
qed

text \<open>What a loop that returns has done.\<close>

lemma for_loop_returns:
  assumes "for_loop env self items w = Some (r, w')"
  shows "\<exists>evs new.
           trace w' = trace w @ evs \<and> sink w' = sink w @ new \<and>
           prefix (map post_id new) (unsaved (done_ids (progress w)) (map item_id items)) \<and>
           prefix (filter is_persist evs)
             (persist_trace (unsaved (done_ids (progress w)) (map item_id items))) \<and>
           (\<forall>s. EvFetch s \<in> set evs \<longrightarrow>
                s \<in> set (unsaved (done_ids (progress w)) (map item_id items))) \<and>
           (r = Inr () \<longrightarrow>
              map post_id new = unsaved (done_ids (progress w)) (map item_id items) \<and>
              filter is_persist evs =
                persist_trace (unsaved (done_ids (progress w)) (map item_id items)) \<and>
              (\<forall>s. s \<in> set (unsaved (done_ids (progress w)) (map item_id items)) \<longrightarrow>
                   EvFetch s \<in> set evs) \<and>
              done_ids (progress w') =
                done_ids (progress w) \<union> set (unsaved (done_ids (progress w)) (map item_id items)) \<and>
              bar_n w' =
                bar_n w + length (unsaved (done_ids (progress w)) (map item_id items)))"
  using assms
proof (induction items arbitrary: w)
  case Nil
  then show ?case by simp
next
  case (Cons it rest)
  let ?sid = "item_id it"
  let ?D = "done_ids (progress w)"
  from Cons.prems show ?case
  proof (cases rule: for_loop_Cons_cases)
    case (is_done_error e)
    then show ?thesis by simp
  next
    case skip
    from Cons.IH[OF skip(2)] skip(1) show ?thesis
      by (simp add: logger_def unsaved_Cons_done)
  next
    case (fetch_error k e)
    then show ?thesis
      by (simp add: unsaved_Cons_new fetch_in_retry)
  next
    case (mark_error k c e)
    then show ?thesis
      by (simp add: unsaved_Cons_new fetch_in_retry export_ndjson_def persist_trace_Cons)
  next
    case (saved k c)
    let ?w5 = "saved_world (ratelimit_sleep self) ?sid k c w"
    let ?U5 = "unsaved (insert ?sid ?D) (map item_id rest)"
    have U: "unsaved ?D (map item_id (it # rest)) = ?sid # ?U5"
      using saved(1) by (simp add: unsaved_Cons_new)
    have D5: "done_ids (progress ?w5) = insert ?sid ?D" by (simp add: saved_world_def)
    from Cons.IH[OF saved(2)] obtain evs new where ih:
      "trace w' = trace ?w5 @ evs" "sink w' = sink ?w5 @ new"
      "prefix (map post_id new) ?U5"
      "prefix (filter is_persist evs) (persist_trace ?U5)"
      "\<forall>s. EvFetch s \<in> set evs \<longrightarrow> s \<in> set ?U5"
      "r = Inr () \<longrightarrow> map post_id new = ?U5 \<and> filter is_persist evs = persist_trace ?U5 \<and>
          (\<forall>s. s \<in> set ?U5 \<longrightarrow> EvFetch s \<in> set evs) \<and>
          done_ids (progress w') = insert ?sid ?D \<union> set ?U5 \<and>
          bar_n w' = bar_n ?w5 + length ?U5"
      unfolding D5 by blast
    let ?evs = "retry_events (ratelimit_sleep self) ?sid k @
                  [EvAppend ?sid, EvMarkDone ?sid, EvBarUpdate] @ evs"
    let ?new = "\<lparr>post_id = ?sid, post_content = c\<rparr> # new"
    have 1: "trace w' = trace w @ ?evs" using ih(1) by (simp add: saved_world_def)
    have 2: "sink w' = sink w @ ?new" using ih(2) by (simp add: saved_world_def)
    have 3: "prefix (map post_id ?new) (?sid # ?U5)" using ih(3) by simp
    have 4: "prefix (filter is_persist ?evs) (persist_trace (?sid # ?U5))"
      using ih(4) by (simp add: persist_trace_Cons)
    have 5: "\<forall>s. EvFetch s \<in> set ?evs \<longrightarrow> s \<in> set (?sid # ?U5)"
      using ih(5) by (auto simp: fetch_in_retry)
    have 6: "r = Inr () \<longrightarrow>
              map post_id ?new = ?sid # ?U5 \<and>
              filter is_persist ?evs = persist_trace (?sid # ?U5) \<and>
              (\<forall>s. s \<in> set (?sid # ?U5) \<longrightarrow> EvFetch s \<in> set ?evs) \<and>
              done_ids (progress w') = ?D \<union> set (?sid # ?U5) \<and>
              bar_n w' = bar_n w + length (?sid # ?U5)"
      using ih(6) by (auto simp: persist_trace_Cons fetch_in_retry saved_world_def)
    show ?thesis
      unfolding U
      by (rule exI[of _ ?evs], rule exI[of _ ?new], intro conjI 1 2 3 4 5 6)
  qed
qed

lemma run_start_simps [simp]:
  "trace (run_start self w) = trace w"
  "sink (run_start self w) = sink w"
  "progress (run_start self w) = progress w"
  "attempts (run_start self w) = attempts w"
  "bar_n (run_start self w) = 0"
  by (simp_all add: run_start_def logger_def Let_def)

lemma finally_block_simps [simp]:
  "trace (finally_block w) = trace w @ [EvBarClose, EvProgressClose]"
  "sink (finally_block w) = sink w"
  "done_ids (progress (finally_block w)) = done_ids (progress w)"
  "is_closed (progress (finally_block w))"
  "bar_closed (finally_block w)"
  "bar_n (finally_block w) = bar_n w"
  "attempts (finally_block w) = attempts w"
  by (simp_all add: finally_block_def progress_close_def bar_close_def close_def)

lemma logger_simps [simp]:
  "trace (logger l m w) = trace w"
  "sink (logger l m w) = sink w"
  "progress (logger l m w) = progress w"
  "attempts (logger l m w) = attempts w"
  "bar_n (logger l m w) = bar_n w"
  by (simp_all add: logger_def)

lemma run_eq:
  "run env self w =
     (case try_block env self (submission_iterator env self) (run_start self w) of
        None \<Rightarrow> None
      | Some (r, w4) \<Rightarrow> Some (r, finally_block w4))"
  by (simp add: run_def run_start_def Let_def)

lemma run_of_loop_error:
  assumes "for_loop env self (yielded (submission_iterator env self)) (run_start self w) =
             Some (Inl e, w1)"
  shows "run env self w = Some (Inl e, finally_block w1)"
  using assms by (simp add: run_eq try_block_def)

lemma run_of_generator_error:
  assumes "for_loop env self (yielded (submission_iterator env self)) (run_start self w) =
             Some (Inr (), w1)"
      and "raised (submission_iterator env self) = Some e"
  shows "run env self w = Some (Inl e, finally_block w1)"
  using assms by (simp add: run_eq try_block_def)

lemma run_of_loop_end:
  assumes "for_loop env self (yielded (submission_iterator env self)) (run_start self w) =
             Some (Inr (), w1)"
      and "raised (submission_iterator env self) = None"
  shows "run env self w =
           Some (Inr (bar_n w1),
                 finally_block (logger INFO ''Scraping finished - %d new posts saved'' w1))"
  using assms by (simp add: run_eq try_block_def)

lemma run_returns:
  assumes "run env self w = Some (r, w')"
  obtains r0 w1 w4 where
    "for_loop env self (yielded (submission_iterator env self)) (run_start self w) = Some (r0, w1)"
    "w' = finally_block w4" "trace w4 = trace w1" "sink w4 = sink w1"
    "progress w4 = progress w1"
    "\<forall>n. r = Inr n \<longrightarrow> r0 = Inr () \<and> n = bar_n w1"
proof -
  from assms obtain w4 where t: "try_block env self (submission_iterator env self) (run_start self w) = Some (r, w4)"
    and w': "w' = finally_block w4"
    by (auto simp: run_eq split: option.splits)
  from t obtain r0 w1 where l: "for_loop env self (yielded (submission_iterator env self)) (run_start self w) = Some (r0, w1)"
    by (auto simp: try_block_def split: option.splits)
  from t l have "trace w4 = trace w1" "sink w4 = sink w1" "progress w4 = progress w1"
    "\<forall>n. r = Inr n \<longrightarrow> r0 = Inr () \<and> n = bar_n w1"
    by (auto simp: try_block_def split: option.splits sum.splits)
  with l w' show thesis by (rule that)
qed

text \<open>
  C10. Whatever way \<open>run\<close> ends, by returning its count or by an exception of the store, of
  the retrieval or of the generator, the \<open>finally\<close> block has run: the progress bar is
  closed, the checkpoint store is closed, and the two calls are the last effects of the run.
\<close>

theorem run_closes_on_every_exit:
  assumes "run env self w = Some (r, w')"
  shows "bar_closed w' \<and> is_closed (progress w') \<and>
         (\<exists>evs. trace w' = trace w @ evs @ [EvBarClose, EvProgressClose])"
proof -
  from assms obtain r0 w1 w4 where
    l: "for_loop env self (yielded (submission_iterator env self)) (run_start self w) = Some (r0, w1)"
    and w': "w' = finally_block w4" and t: "trace w4 = trace w1"
    by (rule run_returns)
  from for_loop_returns[OF l] obtain evs where "trace w1 = trace w @ evs" by auto
  with w' t show ?thesis by simp
qed

text \<open>
  C8. In every run that ends, the records appended to the sink are, in this order, a
  prefix of the identifiers the discovery sequence yields that are not yet done (all of
  them when the run returns its count), and the appends, the \<open>mark_done\<close> calls and the
  steps of the counter are made in the order append, \<open>mark_done\<close>, step for one
  identifier after the other, with nothing of another identifier in between.
\<close>

theorem run_persists_in_discovery_order:
  assumes "run env self w = Some (r, w')"
  shows "\<exists>evs new.
           trace w' = trace w @ evs @ [EvBarClose, EvProgressClose] \<and>
           sink w' = sink w @ new \<and>
           prefix (map post_id new)
             (unsaved (done_ids (progress w)) (map item_id (yielded (submission_iterator env self)))) \<and>
           prefix (filter is_persist evs)
             (persist_trace
               (unsaved (done_ids (progress w)) (map item_id (yielded (submission_iterator env self))))) \<and>
           (\<forall>n. r = Inr n \<longrightarrow>
              map post_id new =
                unsaved (done_ids (progress w)) (map item_id (yielded (submission_iterator env self))) \<and>
              filter is_persist evs =
                persist_trace
                  (unsaved (done_ids (progress w)) (map item_id (yielded (submission_iterator env self)))) \<and>
              n = length
                (unsaved (done_ids (progress w)) (map item_id (yielded (submission_iterator env self)))))"
proof -
  let ?U = "unsaved (done_ids (progress w)) (map item_id (yielded (submission_iterator env self)))"
  from assms obtain r0 w1 w4 where
    l: "for_loop env self (yielded (submission_iterator env self)) (run_start self w) = Some (r0, w1)"
    and w': "w' = finally_block w4" and t: "trace w4 = trace w1" and s: "sink w4 = sink w1"
    and n: "\<forall>n. r = Inr n \<longrightarrow> r0 = Inr () \<and> n = bar_n w1"
    by (rule run_returns)
  from for_loop_returns[OF l] obtain evs new where g:
    "trace w1 = trace w @ evs" "sink w1 = sink w @ new"
    "prefix (map post_id new) ?U" "prefix (filter is_persist evs) (persist_trace ?U)"
    "r0 = Inr () \<longrightarrow> map post_id new = ?U \<and> filter is_persist evs = persist_trace ?U \<and>
        bar_n w1 = length ?U"
    by auto
  have 1: "trace w' = trace w @ evs @ [EvBarClose, EvProgressClose]"
    using w' t g(1) by simp
  have 2: "sink w' = sink w @ new" using w' s g(2) by simp
  have 3: "\<forall>n. r = Inr n \<longrightarrow> map post_id new = ?U \<and> filter is_persist evs = persist_trace ?U \<and>
      n = length ?U"
    using n g(5) by auto
  show ?thesis
    by (rule exI[of _ evs], rule exI[of _ new], intro conjI 1 2 g(3) g(4) 3)
qed

lemma saved_world_simps [simp]:
  "io_error (progress (saved_world rs sid k c w)) = io_error (progress w)"
  "done_ids (progress (saved_world rs sid k c w)) = insert sid (done_ids (progress w))"
  by (simp_all add: saved_world_def)

lemma for_loop_succeeds:
  assumes "io_error (progress w) = (\<lambda>_. None)"
      and ok: "\<forall>n sid. \<exists>k c. fails_then env sid n k \<and> submission_fetch env (n + k) sid = Inr c"
  shows "\<exists>w'. for_loop env self items w = Some (Inr (), w')"
  using assms(1)
proof (induction items arbitrary: w)
  case Nil
  show ?case by simp
next
  case (Cons it rest)
  show ?case
  proof (cases "item_id it \<in> done_ids (progress w)")
    case True
    have "for_loop env self (it # rest) w =
            for_loop env self rest (logger DEBUG ''Skip already-scraped id=%s'' w)"
      using True Cons.prems by (intro for_loop_skip) simp_all
    moreover have "\<exists>w'. for_loop env self rest (logger DEBUG ''Skip already-scraped id=%s'' w) =
        Some (Inr (), w')"
      using Cons.prems by (intro Cons.IH) simp
    ultimately show ?thesis by simp
  next
    case False
    from ok obtain k c where k: "fails_then env (item_id it) (attempts w) k"
      "submission_fetch env (attempts w + k) (item_id it) = Inr c" by blast
    have "for_loop env self (it # rest) w =
            for_loop env self rest (saved_world (ratelimit_sleep self) (item_id it) k c w)"
      using False Cons.prems k by (intro for_loop_saved) simp_all
    moreover have "\<exists>w'. for_loop env self rest
        (saved_world (ratelimit_sleep self) (item_id it) k c w) = Some (Inr (), w')"
      using Cons.prems by (intro Cons.IH) simp
    ultimately show ?thesis by simp
  qed
qed

lemma in_persist_trace:
  "EvAppend s \<in> set (persist_trace U) \<longleftrightarrow> s \<in> set U"
  "EvMarkDone s \<in> set (persist_trace U) \<longleftrightarrow> s \<in> set U"
  by (induction U) (auto simp: persist_trace_Cons)

lemma main_skips_exports:
  assumes "run env (scraper_of_args ROOT a) w = Some (Inr 0, w1)"
  shows "main env ROOT a w =
           Some (Inr [], logger INFO ''No new posts were saved, skipping export steps.'' w1)"
  using assms by (simp add: main_def)

lemma run_saves:
  assumes io: "io_error (progress w) = (\<lambda>_. None)"
      and ok: "\<forall>n sid. \<exists>k c. fails_then env sid n k \<and> submission_fetch env (n + k) sid = Inr c"
      and gen: "raised (submission_iterator env self) = None"
  shows "\<exists>w' evs new.
           run env self w =
             Some (Inr (length (unsaved (done_ids (progress w))
                                  (map item_id (yielded (submission_iterator env self))))), w') \<and>
           sink w' = sink w @ new \<and>
           map post_id new =
             unsaved (done_ids (progress w)) (map item_id (yielded (submission_iterator env self))) \<and>
           done_ids (progress w') =
             done_ids (progress w) \<union> set (map item_id (yielded (submission_iterator env self))) \<and>
           trace w' = trace w @ evs @ [EvBarClose, EvProgressClose] \<and>
           (\<forall>s. s \<in> done_ids (progress w) \<longrightarrow>
                EvFetch s \<notin> set evs \<and> EvAppend s \<notin> set evs \<and> EvMarkDone s \<notin> set evs) \<and>
           bar_closed w' \<and> is_closed (progress w')"
proof -
  let ?U = "unsaved (done_ids (progress w)) (map item_id (yielded (submission_iterator env self)))"
  from io have "io_error (progress (run_start self w)) = (\<lambda>_. None)" by simp
  from for_loop_succeeds[OF this ok] obtain w1 where
    l: "for_loop env self (yielded (submission_iterator env self)) (run_start self w) =
          Some (Inr (), w1)" by blast
  from for_loop_returns[OF l] obtain evs new where g:
    "trace w1 = trace w @ evs" "sink w1 = sink w @ new"
    "\<forall>s. EvFetch s \<in> set evs \<longrightarrow> s \<in> set ?U"
    "map post_id new = ?U" "filter is_persist evs = persist_trace ?U"
    "done_ids (progress w1) = done_ids (progress w) \<union> set ?U" "bar_n w1 = length ?U"
    by auto
  let ?w' = "finally_block (logger INFO ''Scraping finished - %d new posts saved'' w1)"
  have r: "run env self w = Some (Inr (length ?U), ?w')"
    using run_of_loop_end[OF l gen] g(7) by simp
  have s: "sink ?w' = sink w @ new" using g(2) by simp
  have d: "done_ids (progress ?w') =
      done_ids (progress w) \<union> set (map item_id (yielded (submission_iterator env self)))"
    using g(6) by (auto simp: unsaved_set)
  have t: "trace ?w' = trace w @ evs @ [EvBarClose, EvProgressClose]" using g(1) by simp
  have n: "\<forall>s. s \<in> done_ids (progress w) \<longrightarrow>
                EvFetch s \<notin> set evs \<and> EvAppend s \<notin> set evs \<and> EvMarkDone s \<notin> set evs"
  proof (intro allI impI)
    fix s assume sD: "s \<in> done_ids (progress w)"
    then have nU: "s \<notin> set ?U" by (simp add: unsaved_set)
    have "EvAppend s \<notin> set (filter is_persist evs)" "EvMarkDone s \<notin> set (filter is_persist evs)"
      using nU by (simp_all only: g(5) in_persist_trace not_False_eq_True)
    then have "EvAppend s \<notin> set evs" "EvMarkDone s \<notin> set evs" by simp_all
    moreover have "EvFetch s \<notin> set evs" using g(3) nU by blast
    ultimately show "EvFetch s \<notin> set evs \<and> EvAppend s \<notin> set evs \<and> EvMarkDone s \<notin> set evs"
      by simp
  qed
  show ?thesis
    by (rule exI[of _ ?w'], rule exI[of _ evs], rule exI[of _ new],
        intro conjI r s g(4) d t n) simp_all
qed

text \<open>
  C1. For every discovery sequence: when the store raises no I/O error, every retrieval
  succeeds after finitely many retried failures and the generator ends without an
  exception, the run returns the number of the identifiers it found not yet done (each
  counted once, in the order of their first occurrence), appends one record for each of
  them in that order, leaves the store with them added, and makes no retrieval attempt, no
  append and no \<open>mark_done\<close> for an identifier the store already held. When a run returns
  0, \<open>main\<close> goes on to no export step. When the sequence yields no identifier twice,
  the identifiers persisted are simply those of the sequence that were not done.
\<close>

theorem run_resumes:
  assumes io: "io_error (progress w) = (\<lambda>_. None)"
      and ok: "\<forall>n sid. \<exists>k c. fails_then env sid n k \<and> submission_fetch env (n + k) sid = Inr c"
      and gen: "raised (submission_iterator env self) = None"
  shows "(\<exists>w' evs new.
           run env self w =
             Some (Inr (length (unsaved (done_ids (progress w))
                                  (map item_id (yielded (submission_iterator env self))))), w') \<and>
           sink w' = sink w @ new \<and>
           map post_id new =
             unsaved (done_ids (progress w)) (map item_id (yielded (submission_iterator env self))) \<and>
           done_ids (progress w') =
             done_ids (progress w) \<union> set (map item_id (yielded (submission_iterator env self))) \<and>
           trace w' = trace w @ evs @ [EvBarClose, EvProgressClose] \<and>
           (\<forall>s. s \<in> done_ids (progress w) \<longrightarrow>
                EvFetch s \<notin> set evs \<and> EvAppend s \<notin> set evs \<and> EvMarkDone s \<notin> set evs)) \<and>
         (\<forall>ROOT a w1. run env (scraper_of_args ROOT a) w = Some (Inr 0, w1) \<longrightarrow>
              (\<exists>w2. main env ROOT a w = Some (Inr [], w2))) \<and>
         (distinct (map item_id (yielded (submission_iterator env self))) \<longrightarrow>
            unsaved (done_ids (progress w)) (map item_id (yielded (submission_iterator env self))) =
            filter (\<lambda>s. s \<notin> done_ids (progress w))
              (map item_id (yielded (submission_iterator env self))))"
proof (intro conjI)
  from run_saves[OF io ok gen]
  show "\<exists>w' evs new.
           run env self w =
             Some (Inr (length (unsaved (done_ids (progress w))
                                  (map item_id (yielded (submission_iterator env self))))), w') \<and>
           sink w' = sink w @ new \<and>
           map post_id new =
             unsaved (done_ids (progress w)) (map item_id (yielded (submission_iterator env self))) \<and>
           done_ids (progress w') =
             done_ids (progress w) \<union> set (map item_id (yielded (submission_iterator env self))) \<and>
           trace w' = trace w @ evs @ [EvBarClose, EvProgressClose] \<and>
           (\<forall>s. s \<in> done_ids (progress w) \<longrightarrow>
                EvFetch s \<notin> set evs \<and> EvAppend s \<notin> set evs \<and> EvMarkDone s \<notin> set evs)"
    by blast
next
  show "\<forall>ROOT a w1. run env (scraper_of_args ROOT a) w = Some (Inr 0, w1) \<longrightarrow>
              (\<exists>w2. main env ROOT a w = Some (Inr [], w2))"
    by (auto dest: main_skips_exports)
next
  show "distinct (map item_id (yielded (submission_iterator env self))) \<longrightarrow>
            unsaved (done_ids (progress w)) (map item_id (yielded (submission_iterator env self))) =
            filter (\<lambda>s. s \<notin> done_ids (progress w))
              (map item_id (yielded (submission_iterator env self)))"
    by (intro impI) (rule unsaved_of_distinct)
qed

lemma for_loop_append:
  "for_loop env self (xs @ ys) w =
     (case for_loop env self xs w of
        None \<Rightarrow> None
      | Some (Inl e, w1) \<Rightarrow> Some (Inl e, w1)
      | Some (Inr u, w1) \<Rightarrow> for_loop env self ys w1)"
  by (induction xs arbitrary: w)
     (auto simp: Let_def split: sum.splits option.splits prod.splits)

lemma for_loop_fetch_fails:
  assumes "item_id it \<notin> done_ids (progress w)"
      and "io_error (progress w) (IsDone (item_id it)) = None"
      and "fails_then env (item_id it) (attempts w) k"
      and "submission_fetch env (attempts w + k) (item_id it) = Inl e"
      and "\<not> transient e"
  shows "for_loop env self (it # rest) w =
           Some (Inl e, w\<lparr>attempts := attempts w + k + 1,
                          trace := trace w @ retry_events (ratelimit_sleep self) (item_id it) k\<rparr>)"
proof -
  have "fetch_submission_tree env (ratelimit_sleep self) (item_id it) w =
      Some (Inl e, w\<lparr>attempts := attempts w + k + 1,
                     trace := trace w @ retry_events (ratelimit_sleep self) (item_id it) k\<rparr>)"
    using fetch_after_failures[OF assms(3) assms(4)] assms(5) by simp
  then show ?thesis using assms(1,2) by (simp add: is_done_def Let_def)
qed

lemma run_stops_at_failure:
  assumes "fails_then env (item_id it) (attempts w) k"
      and "submission_fetch env (attempts w + k) (item_id it) = Inl e"
      and "\<not> transient e"
      and y: "yielded (submission_iterator env self) = pre @ it # rest"
      and pre: "for_loop env self pre (run_start self winit) = Some (Inr (), w)"
      and nd: "item_id it \<notin> done_ids (progress w)"
      and io: "io_error (progress w) (IsDone (item_id it)) = None"
  shows "run env self winit =
            Some (Inl e,
                  finally_block
                    (w\<lparr>attempts := attempts w + k + 1,
                       trace := trace w @ retry_events (ratelimit_sleep self) (item_id it) k\<rparr>))"
proof -
  have "for_loop env self (it # rest) w =
      Some (Inl e, w\<lparr>attempts := attempts w + k + 1,
                     trace := trace w @ retry_events (ratelimit_sleep self) (item_id it) k\<rparr>)"
    using nd io assms(1-3) by (intro for_loop_fetch_fails)
  then have "for_loop env self (yielded (submission_iterator env self)) (run_start self winit) =
      Some (Inl e, w\<lparr>attempts := attempts w + k + 1,
                     trace := trace w @ retry_events (ratelimit_sleep self) (item_id it) k\<rparr>)"
    using pre by (simp add: y for_loop_append)
  then show ?thesis by (rule run_of_loop_error)
qed

text \<open>
  An exception of the retrieval that is an instance of none of the classes of the \<open>except\<close>
  clause leaves \<open>fetch_submission_tree\<close> at the attempt that met it: no sleep and no
  further attempt follow. The loop of \<open>run\<close> does not catch it: when the loop has come to
  the candidate (after the candidates \<open>pre\<close>), the run ends with that exception, the
  candidate is not persisted and the candidates after it are not looked at.
\<close>

lemma uncaught_failure_is_fatal:
  assumes "fails_then env sid (attempts w) k"
      and "submission_fetch env (attempts w + k) sid = Inl e"
      and "\<not> transient e"
  shows "fetch_submission_tree env rs sid w =
           Some (Inl e, w\<lparr>attempts := attempts w + k + 1,
                          trace := trace w @ retry_events rs sid k\<rparr>) \<and>
         (yielded (submission_iterator env self) = pre @ it # rest \<and> item_id it = sid \<and>
          for_loop env self pre (run_start self winit) = Some (Inr (), w) \<and>
          sid \<notin> done_ids (progress w) \<and> io_error (progress w) (IsDone sid) = None \<longrightarrow>
          run env self winit =
            Some (Inl e,
                  finally_block
                    (w\<lparr>attempts := attempts w + k + 1,
                       trace := trace w @ retry_events (ratelimit_sleep self) sid k\<rparr>)))"
proof
  show "fetch_submission_tree env rs sid w =
           Some (Inl e, w\<lparr>attempts := attempts w + k + 1,
                          trace := trace w @ retry_events rs sid k\<rparr>)"
    using fetch_after_failures[OF assms(1) assms(2)] assms(3) by simp
next
  show "yielded (submission_iterator env self) = pre @ it # rest \<and> item_id it = sid \<and>
          for_loop env self pre (run_start self winit) = Some (Inr (), w) \<and>
          sid \<notin> done_ids (progress w) \<and> io_error (progress w) (IsDone sid) = None \<longrightarrow>
          run env self winit =
            Some (Inl e,
                  finally_block
                    (w\<lparr>attempts := attempts w + k + 1,
                       trace := trace w @ retry_events (ratelimit_sleep self) sid k\<rparr>))"
    using run_stops_at_failure[of env it w k e self pre rest winit] assms by auto
qed

text \<open>
  C2. When the attempts for a thread fail \<open>k\<close> times with exceptions of the \<open>except\<close> clause
  and the next one succeeds, \<open>fetch_submission_tree\<close> returns the thread, having slept
  \<open>ratelimit_sleep\<close> seconds after each failure; an exception it lets out is never one of
  those classes; and while every attempt fails with one of them it never returns. For a
  candidate that is not yet done, the round of the loop then appends exactly one record
  and marks the identifier once.
\<close>

theorem transient_failures_are_retried:
  "(fails_then env sid (attempts w) k \<and> submission_fetch env (attempts w + k) sid = Inr c \<longrightarrow>
      fetch_submission_tree env rs sid w =
        Some (Inr \<lparr>tree_id = sid, tree_content = c\<rparr>,
              w\<lparr>attempts := attempts w + k + 1,
                trace := trace w @ concat (replicate k [EvFetch sid, EvSleep rs]) @ [EvFetch sid]\<rparr>)) \<and>
   (\<forall>e w'. fetch_submission_tree env rs sid w = Some (Inl e, w') \<longrightarrow> \<not> transient e) \<and>
   ((\<forall>i. \<exists>e. submission_fetch env (attempts w + i) sid = Inl e \<and> transient e) \<longrightarrow>
      fetch_submission_tree env rs sid w = None) \<and>
   (fails_then env sid (attempts w) k \<and> submission_fetch env (attempts w + k) sid = Inr c \<and>
    item_id it = sid \<and> sid \<notin> done_ids (progress w) \<and> io_error (progress w) = (\<lambda>_. None) \<longrightarrow>
      (\<exists>w'. for_loop env self [it] w = Some (Inr (), w') \<and>
            sink w' = sink w @ [\<lparr>post_id = sid, post_content = c\<rparr>] \<and>
            done_ids (progress w') = insert sid (done_ids (progress w)) \<and>
            bar_n w' = bar_n w + 1 \<and>
            trace w' = trace w @ concat (replicate k [EvFetch sid, EvSleep (ratelimit_sleep self)]) @
                       [EvFetch sid, EvAppend sid, EvMarkDone sid, EvBarUpdate]))"
proof (intro conjI impI allI)
  assume "fails_then env sid (attempts w) k \<and> submission_fetch env (attempts w + k) sid = Inr c"
  then show "fetch_submission_tree env rs sid w =
        Some (Inr \<lparr>tree_id = sid, tree_content = c\<rparr>,
              w\<lparr>attempts := attempts w + k + 1,
                trace := trace w @ concat (replicate k [EvFetch sid, EvSleep rs]) @ [EvFetch sid]\<rparr>)"
    using fetch_after_failures[of env sid w k "Inr c" rs] by (simp add: retry_events_def)
next
  fix e w'
  assume f: "fetch_submission_tree env rs sid w = Some (Inl e, w')"
  from fetch_returns[OF f] obtain j where "returned_after env rs sid w (Inl e, w') j" ..
  then show "\<not> transient e"
    by (auto simp: returned_after_def split: sum.splits)
next
  assume "\<forall>i. \<exists>e. submission_fetch env (attempts w + i) sid = Inl e \<and> transient e"
  then show "fetch_submission_tree env rs sid w = None" by (rule fetch_never_returns)
next
  assume a: "fails_then env sid (attempts w) k \<and> submission_fetch env (attempts w + k) sid = Inr c \<and>
    item_id it = sid \<and> sid \<notin> done_ids (progress w) \<and> io_error (progress w) = (\<lambda>_. None)"
  then have "for_loop env self (it # []) w =
      for_loop env self [] (saved_world (ratelimit_sleep self) (item_id it) k c w)"
    by (intro for_loop_saved) simp_all
  then have "for_loop env self [it] w =
      Some (Inr (), saved_world (ratelimit_sleep self) sid k c w)"
    using a by simp
  then show "\<exists>w'. for_loop env self [it] w = Some (Inr (), w') \<and>
            sink w' = sink w @ [\<lparr>post_id = sid, post_content = c\<rparr>] \<and>
            done_ids (progress w') = insert sid (done_ids (progress w)) \<and>
            bar_n w' = bar_n w + 1 \<and>
            trace w' = trace w @ concat (replicate k [EvFetch sid, EvSleep (ratelimit_sleep self)]) @
                       [EvFetch sid, EvAppend sid, EvMarkDone sid, EvBarUpdate]"
    by (simp add: saved_world_def retry_events_def)
qed

lemma fixture_iterator:
  "yielded (submission_iterator (fixture_env fixture_feed f) fixture_scraper) =
     map to_item fixture_feed"
  "raised (submission_iterator (fixture_env fixture_feed f) fixture_scraper) = None"
  by (simp_all add: submission_iterator_def has_keywords_def fixture_scraper_def
      scraper_of_args_def fixture_args_def comma_list_def list_submission_ids_def
      to_ts_def fixture_env_def fixture_dates_def fixture_feed_def fixture_sub_def
      flair_set_of_def below_min_score_def flair_rejected_def Let_def)

lemma fixture_ids: "map item_id (map to_item fixture_feed) = [''a'', ''b'', ''c'', ''d'']"
  by (simp add: fixture_feed_def fixture_sub_def to_item_def)

lemma fixture_always_ok:
  "\<forall>n sid. \<exists>k c. fails_then (fixture_env feed (\<lambda>n sid. Inr sid)) sid n k \<and>
      submission_fetch (fixture_env feed (\<lambda>n sid. Inr sid)) (n + k) sid = Inr c"
  by (intro allI exI[of _ 0]) (simp add: fails_then_def fixture_env_def)

theorem run_resumes_witness:
  "(\<exists>w'. run (fixture_env fixture_feed (\<lambda>n sid. Inr sid)) fixture_scraper
            (fixture_world {''a'', ''b''} (\<lambda>_. None)) = Some (Inr 2, w') \<and>
          map post_id (sink w') = [''c'', ''d''] \<and>
          done_ids (progress w') = {''a'', ''b'', ''c'', ''d''}) \<and>
   (\<exists>w2. main (fixture_env fixture_feed (\<lambda>n sid. Inr sid)) [''srv'', ''app''] fixture_args
            (fixture_world {''a'', ''b'', ''c'', ''d''} (\<lambda>_. None)) = Some (Inr [], w2))"
proof
  let ?E = "fixture_env fixture_feed (\<lambda>n sid. Inr sid)"
  have io: "io_error (progress (fixture_world D (\<lambda>_. None))) = (\<lambda>_. None)" for D
    by (simp add: fixture_world_def)
  have U: "unsaved {''a'', ''b''} [''a'', ''b'', ''c'', ''d''] = [''c'', ''d'']"
    by (simp add: unsaved_def)
  have D: "done_ids (progress (fixture_world D (\<lambda>_. None))) = D" 
    "sink (fixture_world D (\<lambda>_. None)) = []" for D
    by (simp_all add: fixture_world_def)
  from run_resumes[OF io[of "{''a'', ''b''}"] fixture_always_ok fixture_iterator(2)]
  show "\<exists>w'. run ?E fixture_scraper (fixture_world {''a'', ''b''} (\<lambda>_. None)) = Some (Inr 2, w') \<and>
          map post_id (sink w') = [''c'', ''d''] \<and>
          done_ids (progress w') = {''a'', ''b'', ''c'', ''d''}"
    unfolding fixture_iterator fixture_ids D U by auto
next
  let ?E = "fixture_env fixture_feed (\<lambda>n sid. Inr sid)"
  have io: "io_error (progress (fixture_world D (\<lambda>_. None))) = (\<lambda>_. None)" for D
    by (simp add: fixture_world_def)
  have U: "unsaved {''a'', ''b'', ''c'', ''d''} [''a'', ''b'', ''c'', ''d''] = []"
    by (simp add: unsaved_def)
  have D: "done_ids (progress (fixture_world D (\<lambda>_. None))) = D" for D
    by (simp add: fixture_world_def)
  note t = run_resumes[OF io[of "{''a'', ''b'', ''c'', ''d''}"] fixture_always_ok fixture_iterator(2)]
  from t have "\<exists>w'. run ?E fixture_scraper
      (fixture_world {''a'', ''b'', ''c'', ''d''} (\<lambda>_. None)) = Some (Inr 0, w')"
    unfolding fixture_iterator fixture_ids D U by auto
  moreover from t have "\<forall>ROOT a w1. run ?E (scraper_of_args ROOT a)
      (fixture_world {''a'', ''b'', ''c'', ''d''} (\<lambda>_. None)) = Some (Inr 0, w1) \<longrightarrow>
      (\<exists>w2. main ?E ROOT a (fixture_world {''a'', ''b'', ''c'', ''d''} (\<lambda>_. None)) =
              Some (Inr [], w2))"
    by (elim conjE)
  ultimately show "\<exists>w2. main ?E [''srv'', ''app''] fixture_args
            (fixture_world {''a'', ''b'', ''c'', ''d''} (\<lambda>_. None)) = Some (Inr [], w2)"
    unfolding fixture_scraper_def by blast
qed

lemma run_stops_at_store_error:
  assumes "yielded (submission_iterator env self) = it # rest"
      and "io_error (progress w) (IsDone (item_id it)) = Some e"
  shows "run env self w = Some (Inl e, finally_block (run_start self w))"
  using assms by (intro run_of_loop_error) (simp add: is_done_def Let_def)

lemma fixture_world_simps:
  "attempts (fixture_world D faults) = 0"
  "trace (fixture_world D faults) = []"
  "sink (fixture_world D faults) = []"
  "done_ids (progress (fixture_world D faults)) = D"
  "io_error (progress (fixture_world D faults)) = faults"
  "bar_n (fixture_world D faults) = 0"
  by (simp_all add: fixture_world_def)

lemma fixture_ratelimit_sleep: "ratelimit_sleep fixture_scraper = 2"
  by (simp add: fixture_scraper_def scraper_of_args_def Let_def)

theorem transient_failures_are_retried_witness:
  "fetch_submission_tree
     (fixture_env fixture_feed (\<lambda>n sid. if n < 2 then Inl ServerError else Inr sid)) 2 ''p4''
     (fixture_world {} (\<lambda>_. None)) =
     Some (Inr \<lparr>tree_id = ''p4'', tree_content = ''p4''\<rparr>,
           (fixture_world {} (\<lambda>_. None))
             \<lparr>attempts := 3,
              trace := [EvFetch ''p4'', EvSleep 2, EvFetch ''p4'', EvSleep 2, EvFetch ''p4'']\<rparr>) \<and>
   fetch_submission_tree (fixture_env fixture_feed (\<lambda>n sid. Inl ServerError)) 2 ''p4''
     (fixture_world {} (\<lambda>_. None)) = None \<and>
   (\<exists>w'. for_loop
            (fixture_env fixture_feed (\<lambda>n sid. if n < 2 then Inl ServerError else Inr sid))
            fixture_scraper [to_item (fixture_sub ''p4'' 1706000000)]
            (fixture_world {} (\<lambda>_. None)) = Some (Inr (), w') \<and>
          sink w' = [\<lparr>post_id = ''p4'', post_content = ''p4''\<rparr>] \<and>
          done_ids (progress w') = {''p4''} \<and>
          trace w' = [EvFetch ''p4'', EvSleep 2, EvFetch ''p4'', EvSleep 2, EvFetch ''p4'',
                      EvAppend ''p4'', EvMarkDone ''p4'', EvBarUpdate])"
proof -
  let ?E = "fixture_env fixture_feed (\<lambda>n sid. if n < 2 then Inl ServerError else Inr sid)"
  let ?F = "fixture_env fixture_feed (\<lambda>n sid. Inl ServerError) :: string env"
  let ?W = "fixture_world {} (\<lambda>_. None)"
  let ?it = "to_item (fixture_sub ''p4'' 1706000000)"
  have f: "fails_then ?E ''p4'' (attempts ?W) 2"
    by (simp add: fails_then_def fixture_env_def fixture_world_simps)
  have s: "submission_fetch ?E (attempts ?W + 2) ''p4'' = Inr ''p4''"
    by (simp add: fixture_env_def fixture_world_simps)
  have a: "\<forall>i. \<exists>e. submission_fetch ?F (attempts ?W + i) ''p4'' = Inl e \<and> transient e"
    by (simp add: fixture_env_def)
  have i: "item_id ?it = ''p4''" by (simp add: to_item_def fixture_sub_def)
  have r: "concat (replicate 2 [EvFetch ''p4'', EvSleep (2::nat)]) =
      [EvFetch ''p4'', EvSleep 2, EvFetch ''p4'', EvSleep 2]"
    by (simp add: numeral_2_eq_2)
  from transient_failures_are_retried
         [where env = ?E and sid = "''p4''" and w = ?W and k = 2 and c = "''p4''" and rs = 2
            and it = ?it and self = fixture_scraper]
       transient_failures_are_retried
         [where env = ?F and sid = "''p4''" and w = ?W and rs = 2]
       f s a i
  show ?thesis
    by (auto simp: r fixture_world_simps fixture_ratelimit_sleep simp del: for_loop.simps)
qed

lemma fixture_run:
  assumes "unsaved D [''a'', ''b'', ''c'', ''d''] = U" and n: "length U = n"
  shows "\<exists>w'. run (fixture_env fixture_feed (\<lambda>n sid. Inr sid)) fixture_scraper
               (fixture_world D (\<lambda>_. None)) = Some (Inr n, w') \<and>
              map post_id (sink w') = U \<and>
              done_ids (progress w') = D \<union> {''a'', ''b'', ''c'', ''d''}"
proof -
  let ?E = "fixture_env fixture_feed (\<lambda>n sid. Inr sid)"
  let ?W = "fixture_world D (\<lambda>_. None)"
  have io: "io_error (progress ?W) = (\<lambda>_. None)" by (simp add: fixture_world_simps)
  have "\<exists>w' evs new. run ?E fixture_scraper ?W = Some (Inr (length U), w') \<and>
           sink w' = [] @ new \<and>
           map post_id new = U \<and>
           done_ids (progress w') = D \<union> set [''a'', ''b'', ''c'', ''d''] \<and>
           trace w' = [] @ evs @ [EvBarClose, EvProgressClose] \<and>
           (\<forall>s. s \<in> D \<longrightarrow>
                EvFetch s \<notin> set evs \<and> EvAppend s \<notin> set evs \<and> EvMarkDone s \<notin> set evs) \<and>
           bar_closed w' \<and> is_closed (progress w')"
    using run_saves[OF io fixture_always_ok fixture_iterator(2)]
    unfolding fixture_iterator fixture_ids fixture_world_simps assms(1) .
  then obtain w' new where "run ?E fixture_scraper ?W = Some (Inr (length U), w')"
    "sink w' = [] @ new" "map post_id new = U"
    "done_ids (progress w') = D \<union> set [''a'', ''b'', ''c'', ''d'']" by blast
  then have "run ?E fixture_scraper ?W = Some (Inr n, w') \<and>
              map post_id (sink w') = U \<and>
              done_ids (progress w') = D \<union> {''a'', ''b'', ''c'', ''d''}"
    using n by simp
  then show ?thesis ..
qed

text \<open>An \<open>AttributeError\<close> raised while the third thread is extracted ends the run.\<close>

lemma uncaught_failure_is_fatal_example:
  "fetch_submission_tree
     (fixture_env fixture_feed
        (\<lambda>n sid. if sid = ''c'' then Inl (OtherError ''AttributeError'') else Inr sid))
     2 ''c'' (fixture_world {} (\<lambda>_. None)) =
     Some (Inl (OtherError ''AttributeError''),
           (fixture_world {} (\<lambda>_. None))\<lparr>attempts := 1, trace := [EvFetch ''c'']\<rparr>) \<and>
   (\<exists>w'. run (fixture_env fixture_feed
                (\<lambda>n sid. if sid = ''c'' then Inl (OtherError ''AttributeError'') else Inr sid))
            fixture_scraper (fixture_world {} (\<lambda>_. None)) =
            Some (Inl (OtherError ''AttributeError''), w') \<and>
          map post_id (sink w') = [''a'', ''b''] \<and>
          done_ids (progress w') = {''a'', ''b''} \<and>
          trace w' =
            [EvFetch ''a'', EvAppend ''a'', EvMarkDone ''a'', EvBarUpdate,
             EvFetch ''b'', EvAppend ''b'', EvMarkDone ''b'', EvBarUpdate,
             EvFetch ''c'', EvBarClose, EvProgressClose])"
proof (rule conjI)
  let ?E = "fixture_env fixture_feed
        (\<lambda>n sid. if sid = ''c'' then Inl (OtherError ''AttributeError'') else Inr sid)"
  let ?W = "fixture_world {} (\<lambda>_. None)"
  have f: "fails_then ?E ''c'' (attempts ?W) 0" by (simp add: fails_then_def)
  have s: "submission_fetch ?E (attempts ?W + 0) ''c'' = Inl (OtherError ''AttributeError'')"
    by (simp add: fixture_env_def)
  have nt: "\<not> transient (OtherError ''AttributeError'')" by simp
  from uncaught_failure_is_fatal[where rs = 2, OF f s nt, THEN conjunct1]
  show "fetch_submission_tree ?E 2 ''c'' ?W =
     Some (Inl (OtherError ''AttributeError''), ?W\<lparr>attempts := 1, trace := [EvFetch ''c'']\<rparr>)"
    by (simp add: retry_events_def fixture_world_simps)
next
  let ?E = "fixture_env fixture_feed
        (\<lambda>n sid. if sid = ''c'' then Inl (OtherError ''AttributeError'') else Inr sid)"
  let ?W = "fixture_world {} (\<lambda>_. None)"
  let ?a = "to_item (fixture_sub ''a'' 1706000400)"
  let ?b = "to_item (fixture_sub ''b'' 1706000300)"
  let ?c = "to_item (fixture_sub ''c'' 1706000200)"
  let ?d = "to_item (fixture_sub ''d'' 1706000100)"
  let ?wa = "saved_world 2 ''a'' 0 ''a'' (run_start fixture_scraper ?W)"
  let ?wb = "saved_world 2 ''b'' 0 ''b'' ?wa"
  have ids: "item_id ?a = ''a''" "item_id ?b = ''b''" "item_id ?c = ''c''"
    by (simp_all add: to_item_def fixture_sub_def)
  have y: "yielded (submission_iterator ?E fixture_scraper) = [?a, ?b] @ ?c # [?d]"
    unfolding fixture_iterator by (simp add: fixture_feed_def)
  have "for_loop ?E fixture_scraper (?a # [?b]) (run_start fixture_scraper ?W) =
          for_loop ?E fixture_scraper [?b]
            (saved_world (ratelimit_sleep fixture_scraper) (item_id ?a) 0 ''a''
               (run_start fixture_scraper ?W))"
    by (rule for_loop_saved)
       (simp_all add: ids fails_then_def fixture_env_def fixture_world_simps)
  also have "\<dots> = for_loop ?E fixture_scraper [?b] ?wa"
    by (simp only: ids fixture_ratelimit_sleep)
  also have "\<dots> = for_loop ?E fixture_scraper []
            (saved_world (ratelimit_sleep fixture_scraper) (item_id ?b) 0 ''b'' ?wa)"
    by (rule for_loop_saved)
       (simp_all add: ids fails_then_def fixture_env_def fixture_world_simps)
  also have "\<dots> = Some (Inr (), ?wb)"
    by (simp only: ids fixture_ratelimit_sleep for_loop.simps)
  finally have pre: "for_loop ?E fixture_scraper [?a, ?b] (run_start fixture_scraper ?W) =
      Some (Inr (), ?wb)" .
  have f: "fails_then ?E ''c'' (attempts ?wb) 0" by (simp add: fails_then_def)
  have s: "submission_fetch ?E (attempts ?wb + 0) ''c'' = Inl (OtherError ''AttributeError'')"
    by (simp add: fixture_env_def)
  have nt: "\<not> transient (OtherError ''AttributeError'')" by simp
  have nd: "''c'' \<notin> done_ids (progress ?wb)" by (simp add: fixture_world_simps)
  have io: "io_error (progress ?wb) (IsDone ''c'') = None" by (simp add: fixture_world_simps)
  let ?w' = "finally_block
               (?wb\<lparr>attempts := attempts ?wb + 0 + 1,
                  trace := trace ?wb @ retry_events (ratelimit_sleep fixture_scraper) ''c'' 0\<rparr>)"
  have r: "run ?E fixture_scraper ?W = Some (Inl (OtherError ''AttributeError''), ?w')"
    by (rule uncaught_failure_is_fatal
               [where self = fixture_scraper and pre = "[?a, ?b]" and it = ?c and rest = "[?d]"
                  and winit = ?W, OF f s nt, THEN conjunct2, THEN mp])
       (intro conjI y ids pre nd io)
  have 1: "map post_id (sink ?w') = [''a'', ''b'']"
    by (simp add: saved_world_def fixture_world_simps)
  have 2: "done_ids (progress ?w') = {''a'', ''b''}"
    by (simp add: fixture_world_simps insert_commute)
  have 3: "trace ?w' =
            [EvFetch ''a'', EvAppend ''a'', EvMarkDone ''a'', EvBarUpdate,
             EvFetch ''b'', EvAppend ''b'', EvMarkDone ''b'', EvBarUpdate,
             EvFetch ''c'', EvBarClose, EvProgressClose]"
    by (simp add: saved_world_def retry_events_def fixture_world_simps)
  show "\<exists>w'. run ?E fixture_scraper ?W = Some (Inl (OtherError ''AttributeError''), w') \<and>
          map post_id (sink w') = [''a'', ''b''] \<and>
          done_ids (progress w') = {''a'', ''b''} \<and>
          trace w' =
            [EvFetch ''a'', EvAppend ''a'', EvMarkDone ''a'', EvBarUpdate,
             EvFetch ''b'', EvAppend ''b'', EvMarkDone ''b'', EvBarUpdate,
             EvFetch ''c'', EvBarClose, EvProgressClose]"
    by (rule exI[of _ ?w'], intro conjI r 1 2 3)
qed

theorem run_persists_in_discovery_order_witness:
  "\<exists>w' evs. run (fixture_env fixture_feed (\<lambda>n sid. Inr sid)) fixture_scraper
               (fixture_world {''a'', ''b''} (\<lambda>_. None)) = Some (Inr 2, w') \<and>
      trace w' = evs @ [EvBarClose, EvProgressClose] \<and>
      map post_id (sink w') = [''c'', ''d''] \<and>
      filter is_persist evs =
        [EvAppend ''c'', EvMarkDone ''c'', EvBarUpdate,
         EvAppend ''d'', EvMarkDone ''d'', EvBarUpdate]"
proof -
  let ?E = "fixture_env fixture_feed (\<lambda>n sid. Inr sid)"
  let ?W = "fixture_world {''a'', ''b''} (\<lambda>_. None)"
  have U: "unsaved {''a'', ''b''} [''a'', ''b'', ''c'', ''d''] = [''c'', ''d'']"
    by (simp add: unsaved_def)
  have len: "length [''c'', ''d''] = 2" by simp
  from fixture_run[OF U len] obtain w' where r: "run ?E fixture_scraper ?W = Some (Inr 2, w')"
    by blast
  note t = run_persists_in_discovery_order
             [OF r, unfolded fixture_iterator fixture_ids fixture_world_simps U]
  from t show ?thesis
  proof (elim exE conjE)
    fix evs new
    assume e: "trace w' = [] @ evs @ [EvBarClose, EvProgressClose]" "sink w' = [] @ new"
      and a: "\<forall>n. (Inr 2 :: exc + nat) = Inr n \<longrightarrow>
       map post_id new = [''c'', ''d''] \<and>
       filter is_persist evs = persist_trace [''c'', ''d''] \<and> n = length [''c'', ''d'']"
    from a have "map post_id new = [''c'', ''d''] \<and>
       filter is_persist evs = persist_trace [''c'', ''d''] \<and> 2 = length [''c'', ''d'']"
      by (rule allE) (erule mp, rule refl)
    then have "map post_id new = [''c'', ''d'']"
      "filter is_persist evs = persist_trace [''c'', ''d'']" by (rule conjunct1, elim conjE)
    with r e have "run ?E fixture_scraper ?W = Some (Inr 2, w') \<and>
      trace w' = evs @ [EvBarClose, EvProgressClose] \<and>
      map post_id (sink w') = [''c'', ''d''] \<and>
      filter is_persist evs =
        [EvAppend ''c'', EvMarkDone ''c'', EvBarUpdate,
         EvAppend ''d'', EvMarkDone ''d'', EvBarUpdate]"
      by (simp add: persist_trace_def)
    then show ?thesis by (intro exI)
  qed
qed

theorem run_closes_on_every_exit_witness:
  "(\<exists>w'. run (fixture_env fixture_feed (\<lambda>n sid. Inr sid)) fixture_scraper
            (fixture_world {} (\<lambda>_. None)) = Some (Inr 4, w') \<and>
          bar_closed w' \<and> is_closed (progress w')) \<and>
   (\<exists>w'. run (fixture_env fixture_feed (\<lambda>n sid. Inl (OtherError ''AttributeError'')))
            fixture_scraper (fixture_world {} (\<lambda>_. None)) =
            Some (Inl (OtherError ''AttributeError''), w') \<and>
          bar_closed w' \<and> is_closed (progress w')) \<and>
   (\<exists>w'. run (fixture_env fixture_feed (\<lambda>n sid. Inr sid)) fixture_scraper
            (fixture_world {} (\<lambda>_. Some (OtherError ''OperationalError''))) =
            Some (Inl (OtherError ''OperationalError''), w') \<and>
          bar_closed w' \<and> is_closed (progress w'))"
proof (intro conjI)
  let ?E = "fixture_env fixture_feed (\<lambda>n sid. Inr sid)"
  let ?W = "fixture_world {} (\<lambda>_. None)"
  have U: "unsaved {} [''a'', ''b'', ''c'', ''d''] = [''a'', ''b'', ''c'', ''d'']"
    by (simp add: unsaved_def)
  from fixture_run[OF U, of 4] obtain w' where r: "run ?E fixture_scraper ?W = Some (Inr 4, w')"
    by auto
  from run_closes_on_every_exit[OF r] r
  show "\<exists>w'. run ?E fixture_scraper ?W = Some (Inr 4, w') \<and>
          bar_closed w' \<and> is_closed (progress w')" by simp
next
  let ?E = "fixture_env fixture_feed (\<lambda>n sid. Inl (OtherError ''AttributeError''))"
  let ?W = "fixture_world {} (\<lambda>_. None)"
  let ?a = "to_item (fixture_sub ''a'' 1706000400)"
  have y: "yielded (submission_iterator ?E fixture_scraper) = [] @ ?a # tl (map to_item fixture_feed)"
    unfolding fixture_iterator by (simp add: fixture_feed_def)
  have "run ?E fixture_scraper ?W =
      Some (Inl (OtherError ''AttributeError''),
            finally_block ((run_start fixture_scraper ?W)
              \<lparr>attempts := attempts (run_start fixture_scraper ?W) + 0 + 1,
                trace := trace (run_start fixture_scraper ?W) @
                         retry_events (ratelimit_sleep fixture_scraper) (item_id ?a) 0\<rparr>))"
    by (rule run_stops_at_failure[OF _ _ _ y])
       (simp_all add: fails_then_def fixture_env_def fixture_world_simps)
  then obtain w' where r: "run ?E fixture_scraper ?W = Some (Inl (OtherError ''AttributeError''), w')"
    by blast
  from run_closes_on_every_exit[OF r] r
  show "\<exists>w'. run ?E fixture_scraper ?W = Some (Inl (OtherError ''AttributeError''), w') \<and>
          bar_closed w' \<and> is_closed (progress w')" by simp
next
  let ?E = "fixture_env fixture_feed (\<lambda>n sid. Inr sid)"
  let ?W = "fixture_world {} (\<lambda>_. Some (OtherError ''OperationalError''))"
  have y: "yielded (submission_iterator ?E fixture_scraper) =
      to_item (fixture_sub ''a'' 1706000400) # tl (map to_item fixture_feed)"
    unfolding fixture_iterator by (simp add: fixture_feed_def)
  have r: "run ?E fixture_scraper ?W =
      Some (Inl (OtherError ''OperationalError''), finally_block (run_start fixture_scraper ?W))"
    by (rule run_stops_at_store_error[OF y]) (simp add: fixture_world_simps)
  from run_closes_on_every_exit[OF r] r
  show "\<exists>w'. run ?E fixture_scraper ?W = Some (Inl (OtherError ''OperationalError''), w') \<and>
          bar_closed w' \<and> is_closed (progress w')" by simp
qed

text \<open>
  C4. A thread that is gone: the platform answers every retrieval of it with HTTP 404, for
  which prawcore raises \<open>NotFound\<close>. The \<open>except\<close> clause catches it (as it catches the
  exceptions of the answers 400, 401 and 403), so \<open>fetch_submission_tree\<close> sleeps and asks
  again without end: the call does not return and lets no exception out, and neither does
  the run that meets the thread. When the answer is 404 once and the thread afterwards, the
  call sleeps, asks a second time and returns the thread.
\<close>

theorem not_found_is_retried_forever:
  "transient NotFound \<and> transient Forbidden \<and> transient BadRequest \<and> transient InvalidToken \<and>
   fetch_submission_tree (fixture_env fixture_feed (\<lambda>n sid. Inl NotFound)) 2 ''a''
     (fixture_world {} (\<lambda>_. None)) = None \<and>
   run (fixture_env fixture_feed (\<lambda>n sid. Inl NotFound)) fixture_scraper
     (fixture_world {} (\<lambda>_. None)) = None \<and>
   fetch_submission_tree
     (fixture_env fixture_feed (\<lambda>n sid. if n = 0 then Inl NotFound else Inr sid)) 2 ''a''
     (fixture_world {} (\<lambda>_. None)) =
     Some (Inr \<lparr>tree_id = ''a'', tree_content = ''a''\<rparr>,
           (fixture_world {} (\<lambda>_. None))
             \<lparr>attempts := 2, trace := [EvFetch ''a'', EvSleep 2, EvFetch ''a'']\<rparr>)"
proof -
  let ?E = "fixture_env fixture_feed (\<lambda>n sid. Inl NotFound)"
  let ?F = "fixture_env fixture_feed (\<lambda>n sid. if n = 0 then Inl NotFound else Inr sid)"
  let ?W = "fixture_world {} (\<lambda>_. None)"
  let ?a = "to_item (fixture_sub ''a'' 1706000400)"
  have n: "fetch_submission_tree ?E rs ''a'' w = None" for rs and w :: "string world"
    by (rule fetch_never_returns) (simp add: fixture_env_def)
  have 1: "fetch_submission_tree ?E 2 ''a'' ?W = None" by (rule n)
  have id: "item_id ?a = ''a''" by (simp add: to_item_def fixture_sub_def)
  have y: "yielded (submission_iterator ?E fixture_scraper) = ?a # map to_item (tl fixture_feed)"
    unfolding fixture_iterator by (simp add: fixture_feed_def)
  have l: "for_loop ?E fixture_scraper (?a # rest) (run_start fixture_scraper ?W) = None" for rest
    by (simp add: id is_done_def fixture_world_simps n Let_def)
  have 2: "run ?E fixture_scraper ?W = None"
    by (simp only: run_eq try_block_def y l option.case)
  have f: "fails_then ?F ''a'' (attempts ?W) 1"
    by (simp add: fails_then_def fixture_env_def fixture_world_simps)
  have s: "submission_fetch ?F (attempts ?W + 1) ''a'' = Inr ''a''"
    by (simp add: fixture_env_def fixture_world_simps)
  have 3: "fetch_submission_tree ?F 2 ''a'' ?W =
     Some (Inr \<lparr>tree_id = ''a'', tree_content = ''a''\<rparr>,
           ?W\<lparr>attempts := 2, trace := [EvFetch ''a'', EvSleep 2, EvFetch ''a'']\<rparr>)"
    using fetch_after_failures[OF f s, of 2]
    by (simp add: retry_events_def fixture_world_simps numeral_2_eq_2)
  show ?thesis by (intro conjI 1 2 3) simp_all
qed

lemma construct_scraper: "fst (construct ROOT a handlers) = scraper_of_args ROOT a"
  by (simp add: construct_def scraper_init_def scraper_of_args_def Let_def)

lemma construct_handlers:
  "snd (construct ROOT a handlers) = setup_signals handlers"
  by (simp add: construct_def scraper_init_def Let_def)

lemma finally_block_log: "log_records (finally_block w) = log_records w"
  by (simp add: finally_block_def progress_close_def bar_close_def)

lemma handler_simps:
  "fst (handler sig_num w) = SystemExit 0"
  "log_records (snd (handler sig_num w)) =
     log_records w @ [(WARNING, ''Received %s - shutting down gracefully...'')]"
  "trace (snd (handler sig_num w)) = trace w @ [EvProgressClose]"
  "sink (snd (handler sig_num w)) = sink w"
  "done_ids (progress (snd (handler sig_num w))) = done_ids (progress w)"
  "is_closed (progress (snd (handler sig_num w)))"
  by (simp_all add: handler_def logger_def progress_close_def close_def Let_def)

lemma deliver_installed:
  assumes "handlers sig_num = Some handler"
  shows "deliver handlers sig_num pt w =
           Exited (SystemExit 0)
             (if pt = OutsideTry then snd (handler sig_num w)
              else finally_block (snd (handler sig_num w)))"
proof -
  have h: "handler sig_num w = (SystemExit 0, snd (handler sig_num w))"
    by (simp add: handler_def Let_def)
  show ?thesis
    by (cases pt) (simp_all add: deliver_def assms, (subst h, simp)+)
qed

text \<open>
  C9. The constructor leaves the handler installed for SIGINT and for SIGTERM. Wherever the
  process is when one of the two arrives, and whatever its state, the handler logs one
  record, at level WARNING, and closes the checkpoint store; the \<open>SystemExit(0)\<close> it raises
  is not caught by the retry loop, runs the \<open>finally\<close> block when it was raised inside the
  \<open>try\<close> of \<open>run\<close> (the bar is closed and the store is closed a second time) and ends the
  process with exit status 0. The entries of the store and the sink are as they were: a
  run interrupted after \<open>j\<close> rounds ends with status 0 and keeps what those rounds saved.
\<close>

theorem interrupt_handler_exits_zero:
  assumes "sig_num = SIGINT \<or> sig_num = SIGTERM"
  shows "snd (construct ROOT a handlers) sig_num = Some handler \<and>
         (\<exists>e w'. deliver (snd (construct ROOT a handlers)) sig_num pt w = Exited e w' \<and>
            exit_status e = 0 \<and>
            log_records w' =
              log_records w @ [(WARNING, ''Received %s - shutting down gracefully...'')] \<and>
            is_closed (progress w') \<and>
            done_ids (progress w') = done_ids (progress w) \<and>
            sink w' = sink w \<and>
            trace w' =
              trace w @
                (if pt = OutsideTry then [EvProgressClose]
                 else [EvProgressClose, EvBarClose, EvProgressClose])) \<and>
         (for_loop env (fst (construct ROOT a handlers))
            (take j (yielded (submission_iterator env (fst (construct ROOT a handlers)))))
            (run_start (fst (construct ROOT a handlers)) winit) = Some (Inr (), w1) \<longrightarrow>
          (\<exists>e w'. interrupted_run env (fst (construct ROOT a handlers))
                     (snd (construct ROOT a handlers)) sig_num j winit = Some (Exited e w') \<and>
             exit_status e = 0 \<and> is_closed (progress w') \<and> bar_closed w' \<and>
             done_ids (progress w') = done_ids (progress w1) \<and> sink w' = sink w1))"
proof -
  let ?hs = "snd (construct ROOT a handlers)"
  have i: "?hs sig_num = Some handler"
    using assms by (auto simp: construct_handlers setup_signals_def)
  note d = deliver_installed[of "snd (construct ROOT a handlers)" sig_num, OF i]
  have 2: "\<exists>e w'. deliver ?hs sig_num pt w = Exited e w' \<and>
            exit_status e = 0 \<and>
            log_records w' =
              log_records w @ [(WARNING, ''Received %s - shutting down gracefully...'')] \<and>
            is_closed (progress w') \<and>
            done_ids (progress w') = done_ids (progress w) \<and>
            sink w' = sink w \<and>
            trace w' =
              trace w @
                (if pt = OutsideTry then [EvProgressClose]
                 else [EvProgressClose, EvBarClose, EvProgressClose])"
    unfolding d
    by (intro exI[of _ "SystemExit 0"] exI[of _ "if pt = OutsideTry then snd (handler sig_num w)
              else finally_block (snd (handler sig_num w))"])
       (simp add: handler_simps finally_block_log)
  have 3: "for_loop env (fst (construct ROOT a handlers))
            (take j (yielded (submission_iterator env (fst (construct ROOT a handlers)))))
            (run_start (fst (construct ROOT a handlers)) winit) = Some (Inr (), w1) \<longrightarrow>
          (\<exists>e w'. interrupted_run env (fst (construct ROOT a handlers))
                     ?hs sig_num j winit = Some (Exited e w') \<and>
             exit_status e = 0 \<and> is_closed (progress w') \<and> bar_closed w' \<and>
             done_ids (progress w') = done_ids (progress w1) \<and> sink w' = sink w1)"
  proof
    assume l: "for_loop env (fst (construct ROOT a handlers))
            (take j (yielded (submission_iterator env (fst (construct ROOT a handlers)))))
            (run_start (fst (construct ROOT a handlers)) winit) = Some (Inr (), w1)"
    have "interrupted_run env (fst (construct ROOT a handlers)) ?hs sig_num j winit =
            Some (Exited (SystemExit 0) (finally_block (snd (handler sig_num w1))))"
      by (simp add: interrupted_run_def l d)
    then show "\<exists>e w'. interrupted_run env (fst (construct ROOT a handlers))
                     ?hs sig_num j winit = Some (Exited e w') \<and>
             exit_status e = 0 \<and> is_closed (progress w') \<and> bar_closed w' \<and>
             done_ids (progress w') = done_ids (progress w1) \<and> sink w' = sink w1"
      by (intro exI[of _ "SystemExit 0"] exI[of _ "finally_block (snd (handler sig_num w1))"])
         (simp add: handler_simps)
  qed
  show ?thesis by (intro conjI i 2 3)
qed

lemma slug_length [simp]: "length (slug d) = length d"
  by (simp add: slug_def)

lemma slug_inj:
  assumes "slug a = slug b" and "CHR ''_'' \<notin> set a" and "CHR ''_'' \<notin> set b"
  shows "a = b"
  using assms
proof (induction a arbitrary: b)
  case Nil
  then show ?case by (simp add: slug_def)
next
  case (Cons x xs)
  then obtain y ys where b: "b = y # ys" by (cases b) (auto simp: slug_def)
  from Cons.prems b have "x = y" by (auto simp: slug_def split: if_splits)
  moreover from Cons.prems b have "xs = ys"
    by (intro Cons.IH) (auto simp: slug_def)
  ultimately show ?case using b by simp
qed

lemma tag_inj:
  assumes eq: "sub1 @ ''_'' @ slug start1 @ ''__'' @ slug end1 =
               sub2 @ ''_'' @ slug start2 @ ''__'' @ slug end2"
      and ls: "length start1 = length start2" and le: "length end1 = length end2"
      and u: "CHR ''_'' \<notin> set start1 \<union> set start2 \<union> set end1 \<union> set end2"
  shows "sub1 = sub2 \<and> start1 = start2 \<and> end1 = end2"
proof -
  have "length (''_'' @ slug start1 @ ''__'' @ slug end1) =
        length (''_'' @ slug start2 @ ''__'' @ slug end2)"
    using ls le by simp
  with eq have s: "sub1 = sub2" and r: "slug start1 @ ''__'' @ slug end1 = slug start2 @ ''__'' @ slug end2"
    by (simp_all add: append_eq_append_conv)
  have "length (slug start1) = length (slug start2)" using ls by simp
  with r have "slug start1 = slug start2" "slug end1 = slug end2"
    by (simp_all add: append_eq_append_conv)
  with u have "start1 = start2" "end1 = end2"
    by (auto intro: slug_inj)
  with s show ?thesis by simp
qed

text \<open>
  C6, as the code has it. The file name of the checkpoint store is \<open>progress_<tag>.sqlite\<close>
  and that of the sink \<open>output_<tag>.ndjson\<close>; the tag is built from the subreddit and the
  two dates only. For dates written alike (the same lengths, no underscore, as bare ISO
  dates are) and names without a path separator, two runs have the same store, and the
  same sink, exactly when subreddit, start date and end date agree; the \<open>Scraper\<close> that
  \<open>main\<close> builds gets these two paths, whatever the keywords.
\<close>

theorem checkpoint_store_scoped_by_tag:
  assumes "length start1 = length start2" and "length end1 = length end2"
      and "CHR ''_'' \<notin> set start1 \<union> set start2 \<union> set end1 \<union> set end2"
      and "CHR ''/'' \<notin> set sub1 \<union> set sub2 \<union> set start1 \<union> set start2 \<union> set end1 \<union> set end2"
  shows "last (progress_path (build_paths ROOT sub1 start1 end1)) =
           ''progress_'' @ tag (build_paths ROOT sub1 start1 end1) @ ''.sqlite'' \<and>
         last (ndjson (build_paths ROOT sub1 start1 end1)) =
           ''output_'' @ tag (build_paths ROOT sub1 start1 end1) @ ''.ndjson'' \<and>
         (progress_path (build_paths ROOT sub1 start1 end1) =
            progress_path (build_paths ROOT sub2 start2 end2) \<longleftrightarrow>
          sub1 = sub2 \<and> start1 = start2 \<and> end1 = end2) \<and>
         (ndjson (build_paths ROOT sub1 start1 end1) =
            ndjson (build_paths ROOT sub2 start2 end2) \<longleftrightarrow>
          sub1 = sub2 \<and> start1 = start2 \<and> end1 = end2) \<and>
         progress_db (scraper_of_args ROOT a) =
           progress_path (build_paths ROOT (arg_subreddit a) (arg_start_date a) (arg_end_date a)) \<and>
         output_path (scraper_of_args ROOT a) =
           ndjson (build_paths ROOT (arg_subreddit a) (arg_start_date a) (arg_end_date a))"
proof -
  have inj: "sub1 = sub2 \<and> start1 = start2 \<and> end1 = end2"
    if "sub1 @ ''_'' @ slug start1 @ ''__'' @ slug end1 =
        sub2 @ ''_'' @ slug start2 @ ''__'' @ slug end2"
    using that assms(1-3) by (rule tag_inj)
  have p: "progress_path (build_paths ROOT sub1 start1 end1) =
            progress_path (build_paths ROOT sub2 start2 end2) \<longleftrightarrow>
          sub1 = sub2 \<and> start1 = start2 \<and> end1 = end2"
    using inj by (auto simp: build_paths_def Let_def)
  have n: "ndjson (build_paths ROOT sub1 start1 end1) =
            ndjson (build_paths ROOT sub2 start2 end2) \<longleftrightarrow>
          sub1 = sub2 \<and> start1 = start2 \<and> end1 = end2"
    using inj by (auto simp: build_paths_def Let_def)
  show ?thesis
    unfolding p n by (simp add: build_paths_def scraper_of_args_def Let_def)
qed

theorem checkpoint_store_scoped_by_tag_witness:
  "last (progress_path (build_paths [''srv'', ''app''] ''python'' ''2024-01-01'' ''2024-01-31'')) =
     ''progress_python_2024_01_01__2024_01_31.sqlite'' \<and>
   progress_path (build_paths [''srv'', ''app''] ''python'' ''2024-01-01'' ''2024-01-31'') \<noteq>
   progress_path (build_paths [''srv'', ''app''] ''rust'' ''2024-01-01'' ''2024-01-31'') \<and>
   progress_path (build_paths [''srv'', ''app''] ''python'' ''2024-01-01'' ''2024-01-31'') \<noteq>
   progress_path (build_paths [''srv'', ''app''] ''python'' ''2024-01-01'' ''2024-02-29'')"
proof -
  have t: "tag (build_paths [''srv'', ''app''] ''python'' ''2024-01-01'' ''2024-01-31'') =
      ''python_2024_01_01__2024_01_31''"
    by (simp add: build_paths_def slug_def Let_def)
  note a = checkpoint_store_scoped_by_tag
             [where ROOT = "[''srv'', ''app'']" and ?sub1.0 = "''python''" and ?sub2.0 = "''rust''"
                and ?start1.0 = "''2024-01-01''" and ?start2.0 = "''2024-01-01''"
                and ?end1.0 = "''2024-01-31''" and ?end2.0 = "''2024-01-31''"]
  note b = checkpoint_store_scoped_by_tag
             [where ROOT = "[''srv'', ''app'']" and ?sub1.0 = "''python''" and ?sub2.0 = "''python''"
                and ?start1.0 = "''2024-01-01''" and ?start2.0 = "''2024-01-01''"
                and ?end1.0 = "''2024-01-31''" and ?end2.0 = "''2024-02-29''"]
  have 1: "last (progress_path (build_paths [''srv'', ''app''] ''python'' ''2024-01-01'' ''2024-01-31'')) =
     ''progress_python_2024_01_01__2024_01_31.sqlite''"
    using a unfolding t by simp
  have 2: "progress_path (build_paths [''srv'', ''app''] ''python'' ''2024-01-01'' ''2024-01-31'') \<noteq>
   progress_path (build_paths [''srv'', ''app''] ''rust'' ''2024-01-01'' ''2024-01-31'')"
    using a by simp
  have 3: "progress_path (build_paths [''srv'', ''app''] ''python'' ''2024-01-01'' ''2024-01-31'') \<noteq>
   progress_path (build_paths [''srv'', ''app''] ''python'' ''2024-01-01'' ''2024-02-29'')"
    using b by simp
  show ?thesis by (intro conjI 1 2 3)
qed

theorem keyword_runs_share_checkpoint_store:
  "search_keywords (scraper_of_args [''srv'', ''app''] (fixture_args\<lparr>arg_keywords := Some ''rust''\<rparr>)) \<noteq>
   search_keywords (scraper_of_args [''srv'', ''app''] (fixture_args\<lparr>arg_keywords := Some ''golang''\<rparr>)) \<and>
   progress_db (scraper_of_args [''srv'', ''app''] (fixture_args\<lparr>arg_keywords := Some ''rust''\<rparr>)) =
   progress_db (scraper_of_args [''srv'', ''app''] (fixture_args\<lparr>arg_keywords := Some ''golang''\<rparr>)) \<and>
   output_path (scraper_of_args [''srv'', ''app''] (fixture_args\<lparr>arg_keywords := Some ''rust''\<rparr>)) =
   output_path (scraper_of_args [''srv'', ''app''] (fixture_args\<lparr>arg_keywords := Some ''golang''\<rparr>))"
  by (simp add: scraper_of_args_def comma_list_def split_def strip_def isspace_def
      fixture_args_def Let_def)

theorem interrupt_handler_exits_zero_witness:
  "snd (construct [''srv'', ''app''] fixture_args (\<lambda>_. None :: string signal_handler option)) SIGTERM = Some handler \<and>
   (\<exists>e w'. deliver (snd (construct [''srv'', ''app''] fixture_args (\<lambda>_. None :: string signal_handler option))) SIGTERM
              InRetrieval (fixture_world {''a''} (\<lambda>_. None)) = Exited e w' \<and>
      exit_status e = 0 \<and>
      log_records w' = [(WARNING, ''Received %s - shutting down gracefully...'')] \<and>
      is_closed (progress w') \<and>
      done_ids (progress w') = {''a''} \<and>
      sink w' = [] \<and>
      trace w' = [EvProgressClose, EvBarClose, EvProgressClose]) \<and>
   (\<exists>e w'. interrupted_run (fixture_env fixture_feed (\<lambda>n sid. Inr sid))
              (fst (construct [''srv'', ''app''] fixture_args (\<lambda>_. None :: string signal_handler option)))
              (snd (construct [''srv'', ''app''] fixture_args (\<lambda>_. None :: string signal_handler option))) SIGINT 1
              (fixture_world {} (\<lambda>_. None)) = Some (Exited e w') \<and>
      exit_status e = 0 \<and> is_closed (progress w') \<and> bar_closed w' \<and>
      done_ids (progress w') = {''a''} \<and>
      sink w' = [\<lparr>post_id = ''a'', post_content = ''a''\<rparr>])"
proof -
  let ?E = "fixture_env fixture_feed (\<lambda>n sid. Inr sid)"
  let ?C = "construct [''srv'', ''app''] fixture_args (\<lambda>_. None) ::
              scraper \<times> (signal \<Rightarrow> string signal_handler option)"
  let ?W = "fixture_world {} (\<lambda>_. None) :: string world"
  let ?V = "fixture_world {''a''} (\<lambda>_. None) :: string world"
  let ?a = "to_item (fixture_sub ''a'' 1706000400)"
  let ?wa = "saved_world 2 ''a'' 0 ''a'' (run_start fixture_scraper ?W)"
  have st: "SIGTERM = SIGINT \<or> SIGTERM = SIGTERM" and si: "SIGINT = SIGINT \<or> SIGINT = SIGTERM"
    by simp_all
  note t = interrupt_handler_exits_zero[OF st, where ROOT = "[''srv'', ''app'']"
      and a = fixture_args and handlers = "\<lambda>_. None" and pt = InRetrieval and w = ?V]
  note i = interrupt_handler_exits_zero[OF si, where ROOT = "[''srv'', ''app'']"
      and a = fixture_args and handlers = "\<lambda>_. None" and env = ?E and j = 1 and winit = ?W
      and ?w1.0 = ?wa]
  have 1: "snd ?C SIGTERM = Some handler" by (rule t[THEN conjunct1])
  have v: "log_records ?V = []" "done_ids (progress ?V) = {''a''}" "sink ?V = []"
    "trace ?V = []"
    by (simp_all add: fixture_world_def)
  have p: "(if InRetrieval = OutsideTry then [EvProgressClose]
            else [EvProgressClose, EvBarClose, EvProgressClose]) =
           [EvProgressClose, EvBarClose, EvProgressClose]" by simp
  have 2: "\<exists>e w'. deliver (snd ?C) SIGTERM InRetrieval ?V = Exited e w' \<and>
      exit_status e = 0 \<and>
      log_records w' = [(WARNING, ''Received %s - shutting down gracefully...'')] \<and>
      is_closed (progress w') \<and>
      done_ids (progress w') = {''a''} \<and>
      sink w' = [] \<and>
      trace w' = [EvProgressClose, EvBarClose, EvProgressClose]"
    using t[THEN conjunct2, THEN conjunct1] unfolding v p append_Nil .
  have s: "fst ?C = fixture_scraper"
    by (simp only: construct_scraper fixture_scraper_def)
  have id: "item_id ?a = ''a''" by (simp add: to_item_def fixture_sub_def)
  have y: "take 1 (yielded (submission_iterator ?E fixture_scraper)) = [?a]"
    unfolding fixture_iterator by (simp add: fixture_feed_def)
  have "for_loop ?E fixture_scraper (?a # []) (run_start fixture_scraper ?W) =
          for_loop ?E fixture_scraper []
            (saved_world (ratelimit_sleep fixture_scraper) (item_id ?a) 0 ''a''
               (run_start fixture_scraper ?W))"
    by (rule for_loop_saved)
       (simp_all add: id fails_then_def fixture_env_def fixture_world_simps)
  also have "\<dots> = Some (Inr (), ?wa)"
    by (simp only: id fixture_ratelimit_sleep for_loop.simps)
  finally have l: "for_loop ?E fixture_scraper [?a] (run_start fixture_scraper ?W) =
      Some (Inr (), ?wa)" .
  have l': "for_loop ?E (fst ?C) (take 1 (yielded (submission_iterator ?E (fst ?C))))
      (run_start (fst ?C) ?W) = Some (Inr (), ?wa)"
    unfolding s y by (rule l)
  have q: "done_ids (progress ?wa) = {''a''}"
    "sink ?wa = [\<lparr>post_id = ''a'', post_content = ''a''\<rparr>]"
    by (simp_all add: saved_world_def fixture_world_simps)
  have 3: "\<exists>e w'. interrupted_run ?E (fst ?C) (snd ?C) SIGINT 1 ?W = Some (Exited e w') \<and>
      exit_status e = 0 \<and> is_closed (progress w') \<and> bar_closed w' \<and>
      done_ids (progress w') = {''a''} \<and>
      sink w' = [\<lparr>post_id = ''a'', post_content = ''a''\<rparr>]"
    using i[THEN conjunct2, THEN conjunct2, THEN mp, OF l'] unfolding q .
  show ?thesis by (intro conjI 1 2 3)
qed



lemma search_loop_eq:
  "search_loop env ms fs feed =
     (map to_item (filter (\<lambda>s. \<not> below_min_score ms s \<and> \<not> flair_rejected env fs s) feed),
      length feed)"
  by (induction feed) (simp_all add: Let_def)

lemma listing_loop_eq:
  "listing_loop env a b ms fs feed =
     (map to_item
        (filter (\<lambda>s. created_utc s \<le> b \<and> \<not> below_min_score ms s \<and> \<not> flair_rejected env fs s)
           (takeWhile (\<lambda>s. a \<le> created_utc s) feed)),
      min (length feed) (length (takeWhile (\<lambda>s. a \<le> created_utc s) feed) + 1))"
  by (induction feed) (auto simp: Let_def)

lemma listing_loop_stops:
  "created_utc s < a \<Longrightarrow>
     listing_loop env a b ms fs (pre @ s # rest) = listing_loop env a b ms fs (pre @ [s])"
  by (induction pre) (simp_all add: Let_def)

lemma to_ts_naive:
  "fromisoformat env d = Inr \<lparr>wall_seconds = t, tzinfo = None\<rparr> \<Longrightarrow> to_ts env d = Inr t"
  by (simp add: to_ts_def Let_def)

lemma list_submission_ids_eq:
  assumes "to_ts env sd = Inr a" and "to_ts env ed = Inr b"
  shows "list_submission_ids env sr sd ed ms fl =
           \<lparr>yielded = map to_item
               (filter (\<lambda>s. created_utc s \<le> b + 86399 \<and> \<not> below_min_score ms s \<and>
                             \<not> flair_rejected env (flair_set_of env fl) s)
                  (takeWhile (\<lambda>s. a \<le> created_utc s) (new_listing env sr))),
            raised = None, requests = [ReqNew sr],
            pulled = min (length (new_listing env sr))
                       (length (takeWhile (\<lambda>s. a \<le> created_utc s) (new_listing env sr)) + 1)\<rparr>"
  using assms by (simp add: list_submission_ids_def listing_loop_eq Let_def)

lemma search_submissions_eq:
  "search_submissions env sr ks tf ms fl =
     \<lparr>yielded = map to_item
         (filter (\<lambda>s. \<not> below_min_score ms s \<and> \<not> flair_rejected env (flair_set_of env fl) s)
            (search_listing env sr (or_query ks) ''new'' tf)),
      raised = None, requests = [ReqSearch sr (or_query ks) ''new'' tf],
      pulled = length (search_listing env sr (or_query ks) ''new'' tf)\<rparr>"
  by (simp add: search_submissions_def search_loop_eq Let_def)

text \<open>
  C3. With bare dates, which \<open>fromisoformat\<close> reads as naive values and \<open>_to_ts\<close> takes as
  UTC, the start boundary is the midnight \<open>t0\<close> of the start date and the end boundary the
  midnight \<open>t1\<close> of the end date plus 86399 seconds. For every feed, the generator yields
  the records up to the first one older than \<open>t0\<close> that are not newer than the end boundary
  (and pass the score and flair filters); it takes no record from the feed after that
  first older one, and what follows it in the feed changes nothing.
\<close>

theorem range_mode_window:
  assumes "fromisoformat env sd = Inr \<lparr>wall_seconds = t0, tzinfo = None\<rparr>"
      and "fromisoformat env ed = Inr \<lparr>wall_seconds = t1, tzinfo = None\<rparr>"
  shows "to_ts env sd = Inr t0 \<and> to_ts env ed = Inr t1 \<and>
         yielded (list_submission_ids env sr sd ed ms fl) =
           map to_item
             (filter (\<lambda>s. created_utc s \<le> t1 + 86399 \<and> \<not> below_min_score ms s \<and>
                           \<not> flair_rejected env (flair_set_of env fl) s)
                (takeWhile (\<lambda>s. t0 \<le> created_utc s) (new_listing env sr))) \<and>
         pulled (list_submission_ids env sr sd ed ms fl) =
           min (length (new_listing env sr))
               (length (takeWhile (\<lambda>s. t0 \<le> created_utc s) (new_listing env sr)) + 1) \<and>
         raised (list_submission_ids env sr sd ed ms fl) = None \<and>
         (\<forall>pre s rest. created_utc s < t0 \<longrightarrow>
            listing_loop env t0 (t1 + 86399) ms (flair_set_of env fl) (pre @ s # rest) =
            listing_loop env t0 (t1 + 86399) ms (flair_set_of env fl) (pre @ [s]))"
proof -
  have a: "to_ts env sd = Inr t0" using assms(1) by (rule to_ts_naive)
  have b: "to_ts env ed = Inr t1" using assms(2) by (rule to_ts_naive)
  have c: "\<forall>pre s rest. created_utc s < t0 \<longrightarrow>
            listing_loop env t0 (t1 + 86399) ms (flair_set_of env fl) (pre @ s # rest) =
            listing_loop env t0 (t1 + 86399) ms (flair_set_of env fl) (pre @ [s])"
    by (intro allI impI) (rule listing_loop_stops)
  show ?thesis
    unfolding list_submission_ids_eq[OF a b]
    by (intro conjI a b c) simp_all
qed

text \<open>
  C7. When the list of keywords is not empty, the discovery sends one search request, for
  the quoted keywords joined by \<open>OR\<close>, sorted \<open>new\<close>, within the time bucket \<open>year\<close>; it
  yields the results that pass the score and flair filters, the same two tests the
  range-mode loop makes (on a feed that lies inside the window both loops yield the same
  items); and the start and end date have no part in it: with other dates the generator
  is the same.
\<close>

theorem keyword_mode_discovery:
  assumes "search_keywords self = Some ks" and "ks \<noteq> []"
  shows "requests (submission_iterator env self) =
           [ReqSearch (subreddit self)
              (join '' OR '' (map (\<lambda>k. [CHR 0x22] @ k @ [CHR 0x22]) ks)) ''new'' ''year''] \<and>
         yielded (submission_iterator env self) =
           map to_item
             (filter (\<lambda>s. \<not> below_min_score (min_score self) s \<and>
                           \<not> flair_rejected env (flair_set_of env (flairs self)) s)
                (search_listing env (subreddit self) (or_query ks) ''new'' ''year'')) \<and>
         raised (submission_iterator env self) = None \<and>
         submission_iterator env (self\<lparr>start_date := sd, end_date := ed\<rparr>) =
           submission_iterator env self \<and>
         ((\<forall>s \<in> set feed. a \<le> created_utc s \<and> created_utc s \<le> b) \<longrightarrow>
            fst (listing_loop env a b (min_score self) (flair_set_of env (flairs self)) feed) =
            fst (search_loop env (min_score self) (flair_set_of env (flairs self)) feed))"
proof -
  have k: "has_keywords self" "has_keywords (self\<lparr>start_date := sd, end_date := ed\<rparr>)"
    using assms by (simp_all add: has_keywords_def)
  have w: "(\<forall>s \<in> set feed. a \<le> created_utc s \<and> created_utc s \<le> b) \<longrightarrow>
            fst (listing_loop env a b (min_score self) (flair_set_of env (flairs self)) feed) =
            fst (search_loop env (min_score self) (flair_set_of env (flairs self)) feed)"
  proof
    assume i: "\<forall>s \<in> set feed. a \<le> created_utc s \<and> created_utc s \<le> b"
    then have tw: "takeWhile (\<lambda>s. a \<le> created_utc s) feed = feed" by (simp add: takeWhile_eq_all_conv)
    have fe: "filter (\<lambda>s. created_utc s \<le> b \<and> \<not> below_min_score (min_score self) s \<and>
          \<not> flair_rejected env (flair_set_of env (flairs self)) s) feed =
        filter (\<lambda>s. \<not> below_min_score (min_score self) s \<and>
          \<not> flair_rejected env (flair_set_of env (flairs self)) s) feed"
      using i by (intro filter_cong) auto
    show "fst (listing_loop env a b (min_score self) (flair_set_of env (flairs self)) feed) =
            fst (search_loop env (min_score self) (flair_set_of env (flairs self)) feed)"
      by (simp only: listing_loop_eq search_loop_eq fst_conv tw fe)
  qed
  show ?thesis
    using assms k w
    by (simp add: submission_iterator_def search_submissions_eq or_query_def)
qed



theorem range_mode_window_witness:
  "yielded (list_submission_ids
      (fixture_env
         [fixture_sub ''feb'' 1706745600, fixture_sub ''last'' 1706745599,
          fixture_sub ''first'' 1704067200, fixture_sub ''old'' 1704067199,
          fixture_sub ''stray'' 1706000000] (\<lambda>n sid. Inr sid))
      ''python'' ''2024-01-01'' ''2024-01-31'' None None) =
     [to_item (fixture_sub ''last'' 1706745599), to_item (fixture_sub ''first'' 1704067200)] \<and>
   pulled (list_submission_ids
      (fixture_env
         [fixture_sub ''feb'' 1706745600, fixture_sub ''last'' 1706745599,
          fixture_sub ''first'' 1704067200, fixture_sub ''old'' 1704067199,
          fixture_sub ''stray'' 1706000000] (\<lambda>n sid. Inr sid))
      ''python'' ''2024-01-01'' ''2024-01-31'' None None) = 4 \<and>
   yielded (list_submission_ids
      \<lparr>fromisoformat = (\<lambda>s. Inr \<lparr>wall_seconds = (if s = ''start'' then 60 else 0), tzinfo = None\<rparr>),
       str_lower = ascii_lower,
       new_listing = (\<lambda>_. [fixture_sub ''p100'' 100, fixture_sub ''p90'' 90,
                            fixture_sub ''p50'' 50, fixture_sub ''p10'' 10]),
       search_listing = (\<lambda>_ _ _ _. []), submission_fetch = (\<lambda>n sid. Inr sid)\<rparr>
      ''python'' ''start'' ''end'' None None) =
     [to_item (fixture_sub ''p100'' 100), to_item (fixture_sub ''p90'' 90)] \<and>
   pulled (list_submission_ids
      \<lparr>fromisoformat = (\<lambda>s. Inr \<lparr>wall_seconds = (if s = ''start'' then 60 else 0), tzinfo = None\<rparr>),
       str_lower = ascii_lower,
       new_listing = (\<lambda>_. [fixture_sub ''p100'' 100, fixture_sub ''p90'' 90,
                            fixture_sub ''p50'' 50, fixture_sub ''p10'' 10]),
       search_listing = (\<lambda>_ _ _ _. []), submission_fetch = (\<lambda>n sid. Inr sid)\<rparr>
      ''python'' ''start'' ''end'' None None) = 3"
proof -
  let ?E = "fixture_env
         [fixture_sub ''feb'' 1706745600, fixture_sub ''last'' 1706745599,
          fixture_sub ''first'' 1704067200, fixture_sub ''old'' 1704067199,
          fixture_sub ''stray'' 1706000000] (\<lambda>n sid. Inr sid)"
  let ?F = "\<lparr>fromisoformat = (\<lambda>s. Inr \<lparr>wall_seconds = (if s = ''start'' then 60 else 0), tzinfo = None\<rparr>),
       str_lower = ascii_lower,
       new_listing = (\<lambda>_. [fixture_sub ''p100'' 100, fixture_sub ''p90'' 90,
                            fixture_sub ''p50'' 50, fixture_sub ''p10'' 10]),
       search_listing = (\<lambda>_ _ _ _. []), submission_fetch = (\<lambda>n sid. Inr sid)\<rparr> :: string env"
  have e1: "fromisoformat ?E ''2024-01-01'' = Inr \<lparr>wall_seconds = 1704067200, tzinfo = None\<rparr>"
    and e2: "fromisoformat ?E ''2024-01-31'' = Inr \<lparr>wall_seconds = 1706659200, tzinfo = None\<rparr>"
    by (simp_all add: fixture_env_def fixture_dates_def)
  have f1: "fromisoformat ?F ''start'' = Inr \<lparr>wall_seconds = 60, tzinfo = None\<rparr>"
    and f2: "fromisoformat ?F ''end'' = Inr \<lparr>wall_seconds = 0, tzinfo = None\<rparr>"
    by simp_all
  note a = range_mode_window[OF e1 e2, where sr = "''python''" and ms = None and fl = None]
  note b = range_mode_window[OF f1 f2, where sr = "''python''" and ms = None and fl = None]
  have 1: "yielded (list_submission_ids ?E ''python'' ''2024-01-01'' ''2024-01-31'' None None) =
     [to_item (fixture_sub ''last'' 1706745599), to_item (fixture_sub ''first'' 1704067200)]"
    unfolding a[THEN conjunct2, THEN conjunct2, THEN conjunct1]
    by (simp add: fixture_env_def fixture_sub_def below_min_score_def flair_rejected_def
        flair_set_of_def)
  have 2: "pulled (list_submission_ids ?E ''python'' ''2024-01-01'' ''2024-01-31'' None None) = 4"
    unfolding a[THEN conjunct2, THEN conjunct2, THEN conjunct2, THEN conjunct1]
    by (simp add: fixture_env_def fixture_sub_def)
  have 3: "yielded (list_submission_ids ?F ''python'' ''start'' ''end'' None None) =
     [to_item (fixture_sub ''p100'' 100), to_item (fixture_sub ''p90'' 90)]"
    unfolding b[THEN conjunct2, THEN conjunct2, THEN conjunct1]
    by (simp add: fixture_sub_def below_min_score_def flair_rejected_def flair_set_of_def)
  have 4: "pulled (list_submission_ids ?F ''python'' ''start'' ''end'' None None) = 3"
    unfolding b[THEN conjunct2, THEN conjunct2, THEN conjunct2, THEN conjunct1]
    by (simp add: fixture_sub_def)
  show ?thesis by (intro conjI 1 2 3 4)
qed

theorem keyword_mode_discovery_witness:
  "requests (submission_iterator (fixture_env fixture_feed (\<lambda>n sid. Inr sid))
      (fixture_scraper\<lparr>search_keywords := Some [''rust'', ''async await'']\<rparr>)) =
     [ReqSearch ''python''
        ([CHR 0x22] @ ''rust'' @ [CHR 0x22] @ '' OR '' @ [CHR 0x22] @ ''async await'' @ [CHR 0x22])
        ''new'' ''year''] \<and>
   yielded (submission_iterator (fixture_env fixture_feed (\<lambda>n sid. Inr sid))
      (fixture_scraper\<lparr>search_keywords := Some [''rust'', ''async await'']\<rparr>)) =
     map to_item fixture_feed \<and>
   submission_iterator (fixture_env fixture_feed (\<lambda>n sid. Inr sid))
     (fixture_scraper\<lparr>search_keywords := Some [''rust'', ''async await''],
        start_date := ''1999-12-31'', end_date := ''no date''\<rparr>) =
   submission_iterator (fixture_env fixture_feed (\<lambda>n sid. Inr sid))
     (fixture_scraper\<lparr>search_keywords := Some [''rust'', ''async await'']\<rparr>)"
proof -
  let ?E = "fixture_env fixture_feed (\<lambda>n sid. Inr sid)"
  let ?S = "fixture_scraper\<lparr>search_keywords := Some [''rust'', ''async await'']\<rparr>"
  have k: "search_keywords ?S = Some [''rust'', ''async await'']" by simp
  have n: "[''rust'', ''async await''] \<noteq> []" by simp
  have s: "subreddit ?S = ''python''" "min_score ?S = None" "flairs ?S = None"
    by (simp_all add: fixture_scraper_def scraper_of_args_def fixture_args_def comma_list_def
        Let_def)
  note t = keyword_mode_discovery[OF k n, where env = ?E and sd = "''1999-12-31''"
      and ed = "''no date''", unfolded s]
  have 1: "requests (submission_iterator ?E ?S) =
     [ReqSearch ''python''
        ([CHR 0x22] @ ''rust'' @ [CHR 0x22] @ '' OR '' @ [CHR 0x22] @ ''async await'' @ [CHR 0x22])
        ''new'' ''year'']"
    unfolding t[THEN conjunct1] by simp
  have 2: "yielded (submission_iterator ?E ?S) = map to_item fixture_feed"
    unfolding t[THEN conjunct2, THEN conjunct1]
    by (simp add: fixture_env_def below_min_score_def flair_rejected_def flair_set_of_def)
  have 3: "submission_iterator ?E
     (fixture_scraper\<lparr>search_keywords := Some [''rust'', ''async await''],
        start_date := ''1999-12-31'', end_date := ''no date''\<rparr>) =
     submission_iterator ?E ?S"
    using t[THEN conjunct2, THEN conjunct2, THEN conjunct2, THEN conjunct1] by simp
  show ?thesis by (intro conjI 1 2 3)
qed


lemma fixture_str_lower: "str_lower (fixture_env feed f) = ascii_lower"
  by (simp add: fixture_env_def)



end
